theory Spec2Isabelle
  imports Main "HOL-Library.Word"
begin

section \<open>Python values and exceptions\<close>

text \<open>
  The program is a Python script (\<^verbatim>\<open>src/main.py\<close>). Its data are dynamically typed:
  \<^verbatim>\<open>json.loads\<close> may hand any JSON value to \<^verbatim>\<open>save_data_to_csv\<close>, and
  \<^verbatim>\<open>csv.DictReader\<close> returns dictionaries whose keys are strings or \<^verbatim>\<open>None\<close> and
  whose values are strings, \<^verbatim>\<open>None\<close> or lists of strings. One datatype of values covers
  both. A dictionary is an association list in insertion order (the order
  \<^verbatim>\<open>dict.keys()\<close> yields); a well-formed one has distinct keys. A float is carried as
  the 64 bits of its IEEE double; the program only tests it for truth and hands it to
  \<^verbatim>\<open>str\<close>.

  A Python string is a sequence of code points, and a code point is a number below
  \<open>0x110000\<close>. The surrogates, \<open>0xD800\<close> to \<open>0xDFFF\<close>, are among them: a Python
  string can hold one alone (\<^verbatim>\<open>json.loads\<close> returns one for the escape
  \<^verbatim>\<open>\ud800\<close>), and UTF-8 does not encode it. \<open>py\<close> gives the Python string of a
  literal of the theory.
\<close>

type_synonym codepoint = nat

type_synonym pystr = "codepoint list"

definition py :: "string \<Rightarrow> pystr" where
  "py s = map of_char s"

datatype pyexn =
  TypeError | AttributeError | KeyError | IndexError | ValueError
  | CsvError | JSONDecodeError | RecursionError | UnicodeEncodeError

datatype pykey = NoneKey | StrKey pystr

datatype pyval =
  PNone | PBool bool | PInt int | PFloat "64 word" | PStr pystr
  | PList "pyval list" | PDict "(pykey \<times> pyval) list"

text \<open>Truth value testing, as in \<^verbatim>\<open>if not data\<close>.\<close>

fun truthy :: "pyval \<Rightarrow> bool" where
  "truthy PNone = False"
| "truthy (PBool b) = b"
| "truthy (PInt n) = (n \<noteq> 0)"
| "truthy (PFloat w) = (take_bit 63 w \<noteq> 0)"
| "truthy (PStr s) = (s \<noteq> [])"
| "truthy (PList xs) = (xs \<noteq> [])"
| "truthy (PDict d) = (d \<noteq> [])"

text \<open>
  \<^verbatim>\<open>data[0]\<close>. A dictionary here has keys that are strings or \<^verbatim>\<open>None\<close>, so the key
  \<^verbatim>\<open>0\<close> is never present.
\<close>

fun getitem0 :: "pyval \<Rightarrow> pyexn + pyval" where
  "getitem0 (PList xs) = (case xs of [] \<Rightarrow> Inl IndexError | x # _ \<Rightarrow> Inr x)"
| "getitem0 (PStr s) = (case s of [] \<Rightarrow> Inl IndexError | c # _ \<Rightarrow> Inr (PStr [c]))"
| "getitem0 (PDict d) = Inl KeyError"
| "getitem0 PNone = Inl TypeError"
| "getitem0 (PBool b) = Inl TypeError"
| "getitem0 (PInt n) = Inl TypeError"
| "getitem0 (PFloat w) = Inl TypeError"

text \<open>The method \<^verbatim>\<open>.keys()\<close>: only a dictionary has it.\<close>

fun keys :: "pyval \<Rightarrow> pyexn + pykey list" where
  "keys (PDict d) = Inr (map fst d)"
| "keys PNone = Inl AttributeError"
| "keys (PBool b) = Inl AttributeError"
| "keys (PInt n) = Inl AttributeError"
| "keys (PFloat w) = Inl AttributeError"
| "keys (PStr s) = Inl AttributeError"
| "keys (PList xs) = Inl AttributeError"

definition key_val :: "pykey \<Rightarrow> pyval" where
  "key_val k = (case k of NoneKey \<Rightarrow> PNone | StrKey s \<Rightarrow> PStr s)"

text \<open>Iteration, as in \<^verbatim>\<open>for row in data\<close>.\<close>

fun py_iter :: "pyval \<Rightarrow> pyexn + pyval list" where
  "py_iter (PList xs) = Inr xs"
| "py_iter (PStr s) = Inr (map (\<lambda>c. PStr [c]) s)"
| "py_iter (PDict d) = Inr (map (\<lambda>(k, v). key_val k) d)"
| "py_iter PNone = Inl TypeError"
| "py_iter (PBool b) = Inl TypeError"
| "py_iter (PInt n) = Inl TypeError"
| "py_iter (PFloat w) = Inl TypeError"

text \<open>
  \<^verbatim>\<open>d[k] = v\<close> on a dictionary: an existing key keeps its position and takes the new
  value, a new key goes to the end.
\<close>

fun dict_setitem :: "(pykey \<times> pyval) list \<Rightarrow> pykey \<Rightarrow> pyval \<Rightarrow> (pykey \<times> pyval) list" where
  "dict_setitem [] k v = [(k, v)]"
| "dict_setitem (p # d) k v = (if fst p = k then (k, v) # d else p # dict_setitem d k v)"

section \<open>The csv module, in the \<^verbatim>\<open>excel\<close> dialect\<close>

text \<open>
  The csv module is Python's standard library, not code of the script; it is modelled
  here from CPython's implementation (\<^verbatim>\<open>Lib/csv.py\<close> for \<^verbatim>\<open>DictReader\<close> and
  \<^verbatim>\<open>DictWriter\<close>, \<^verbatim>\<open>Modules/_csv.c\<close> for the reader and the writer, as of Python
  3.11). \<^verbatim>\<open>csv.DictWriter\<close> and \<^verbatim>\<open>csv.DictReader\<close> are called with their defaults:
  delimiter comma, quote character the double quote, doubled quotes inside quoted
  fields, no escape character, minimal quoting, line terminator CR LF, non-strict
  reading, and the field size limit 131072.
\<close>

abbreviation CR :: codepoint where "CR \<equiv> 0x0D"
abbreviation LF :: codepoint where "LF \<equiv> 0x0A"
abbreviation DQUOTE :: codepoint where "DQUOTE \<equiv> 0x22"
abbreviation COMMA :: codepoint where "COMMA \<equiv> 0x2C"

definition field_limit :: nat where
  "field_limit = 131072"

subsection \<open>Writing a row\<close>

text \<open>
  A cell that is a string is written as it is, \<^verbatim>\<open>None\<close> as the empty field, anything
  else through \<^verbatim>\<open>str()\<close>, which is a parameter \<open>py_str\<close> of the model. \<^verbatim>\<open>str()\<close>
  can raise (\<^verbatim>\<open>ValueError\<close> on an integer of more than 4300 digits, for one), so
  \<open>py_str\<close> returns an exception or a string. The cells are taken from left to right,
  and the first exception ends the row.
\<close>

definition cell_text :: "(pyval \<Rightarrow> pyexn + pystr) \<Rightarrow> pyval \<Rightarrow> pyexn + pystr" where
  "cell_text py_str v = (case v of PStr s \<Rightarrow> Inr s | PNone \<Rightarrow> Inr [] | _ \<Rightarrow> py_str v)"

fun cell_texts :: "(pyval \<Rightarrow> pyexn + pystr) \<Rightarrow> pyval list \<Rightarrow> pyexn + pystr list" where
  "cell_texts py_str [] = Inr []"
| "cell_texts py_str (v # vs) =
     (case cell_text py_str v of
        Inl e \<Rightarrow> Inl e
      | Inr s \<Rightarrow>
          (case cell_texts py_str vs of
             Inl e \<Rightarrow> Inl e
           | Inr ss \<Rightarrow> Inr (s # ss)))"

definition special :: "codepoint \<Rightarrow> bool" where
  "special c \<longleftrightarrow> c = COMMA \<or> c = DQUOTE \<or> c = CR \<or> c = LF"

definition double_quotes :: "pystr \<Rightarrow> pystr" where
  "double_quotes s = concat (map (\<lambda>c. if c = DQUOTE then [DQUOTE, DQUOTE] else [c]) s)"

text \<open>
  \<^verbatim>\<open>join_append\<close>: a field holding the delimiter, the quote character or a character of
  the line terminator is put in quotes, its quotes doubled.
\<close>

definition join_append :: "pystr \<Rightarrow> pystr" where
  "join_append field =
     (if list_ex special field then DQUOTE # double_quotes field @ [DQUOTE] else field)"

fun join_record :: "pystr list \<Rightarrow> pystr" where
  "join_record [] = []"
| "join_record [f] = join_append f"
| "join_record (f # g # fs) = join_append f @ COMMA # join_record (g # fs)"

text \<open>
  \<^verbatim>\<open>writer.writerow\<close> builds one line: the record of the texts of the cells (a record
  of one empty field would be an empty line, so it is a pair of quotes), then the
  line terminator. The line goes to the \<^verbatim>\<open>write\<close> method of the file in one call.
\<close>

definition record_text :: "pystr list \<Rightarrow> pystr" where
  "record_text row = (if row \<noteq> [] \<and> join_record row = [] then [DQUOTE, DQUOTE] else join_record row)"

definition csv_writerow :: "(pyval \<Rightarrow> pyexn + pystr) \<Rightarrow> pyval list \<Rightarrow> pyexn + pystr" where
  "csv_writerow py_str cells =
     (case cell_texts py_str cells of
        Inl e \<Rightarrow> Inl e
      | Inr fields \<Rightarrow> Inr (record_text fields @ [CR, LF]))"

subsection \<open>Reading rows\<close>

text \<open>
  The reader is the state machine of \<^verbatim>\<open>parse_process_char\<close>. The states of an
  escape character are left out: the dialect has none.
\<close>

datatype parser_state =
  START_RECORD | START_FIELD | IN_FIELD | IN_QUOTED_FIELD | QUOTE_IN_QUOTED_FIELD | EAT_CRNL

record reader =
  state :: parser_state
  field :: pystr
  saved :: "pystr list"

datatype input = Chr codepoint | EOL

definition parse_reset :: reader where
  "parse_reset = \<lparr>state = START_RECORD, field = [], saved = []\<rparr>"

definition parse_save_field :: "reader \<Rightarrow> reader" where
  "parse_save_field r = r\<lparr>saved := saved r @ [field r], field := []\<rparr>"

definition parse_add_char :: "reader \<Rightarrow> codepoint \<Rightarrow> pyexn + reader" where
  "parse_add_char r c =
     (if length (field r) \<ge> field_limit then Inl CsvError
      else Inr (r\<lparr>field := field r @ [c]\<rparr>))"

definition is_eol :: "input \<Rightarrow> bool" where
  "is_eol i \<longleftrightarrow> i = Chr LF \<or> i = Chr CR \<or> i = EOL"

definition after_eol :: "input \<Rightarrow> parser_state" where
  "after_eol i = (if i = EOL then START_RECORD else EAT_CRNL)"

definition start_field :: "reader \<Rightarrow> input \<Rightarrow> pyexn + reader" where
  "start_field r i =
     (if is_eol i then Inr ((parse_save_field r)\<lparr>state := after_eol i\<rparr>)
      else if i = Chr DQUOTE then Inr (r\<lparr>state := IN_QUOTED_FIELD\<rparr>)
      else if i = Chr COMMA then Inr (parse_save_field r)
      else (case i of
              Chr c \<Rightarrow> (case parse_add_char r c of
                          Inl e \<Rightarrow> Inl e
                        | Inr r' \<Rightarrow> Inr (r'\<lparr>state := IN_FIELD\<rparr>))
            | EOL \<Rightarrow> Inr r))"

fun parse_process_char :: "reader \<Rightarrow> input \<Rightarrow> pyexn + reader" where
  "parse_process_char r i =
     (case state r of
        START_RECORD \<Rightarrow>
          (if i = EOL then Inr r
           else if i = Chr LF \<or> i = Chr CR then Inr (r\<lparr>state := EAT_CRNL\<rparr>)
           else start_field (r\<lparr>state := START_FIELD\<rparr>) i)
      | START_FIELD \<Rightarrow> start_field r i
      | IN_FIELD \<Rightarrow>
          (if is_eol i then Inr ((parse_save_field r)\<lparr>state := after_eol i\<rparr>)
           else if i = Chr COMMA then Inr ((parse_save_field r)\<lparr>state := START_FIELD\<rparr>)
           else (case i of Chr c \<Rightarrow> parse_add_char r c | EOL \<Rightarrow> Inr r))
      | IN_QUOTED_FIELD \<Rightarrow>
          (if i = EOL then Inr r
           else if i = Chr DQUOTE then Inr (r\<lparr>state := QUOTE_IN_QUOTED_FIELD\<rparr>)
           else (case i of Chr c \<Rightarrow> parse_add_char r c | EOL \<Rightarrow> Inr r))
      | QUOTE_IN_QUOTED_FIELD \<Rightarrow>
          (if i = Chr DQUOTE then
             (case parse_add_char r DQUOTE of
                Inl e \<Rightarrow> Inl e
              | Inr r' \<Rightarrow> Inr (r'\<lparr>state := IN_QUOTED_FIELD\<rparr>))
           else if i = Chr COMMA then Inr ((parse_save_field r)\<lparr>state := START_FIELD\<rparr>)
           else if is_eol i then Inr ((parse_save_field r)\<lparr>state := after_eol i\<rparr>)
           else (case i of
                   Chr c \<Rightarrow> (case parse_add_char r c of
                               Inl e \<Rightarrow> Inl e
                             | Inr r' \<Rightarrow> Inr (r'\<lparr>state := IN_FIELD\<rparr>))
                 | EOL \<Rightarrow> Inr r))
      | EAT_CRNL \<Rightarrow>
          (if i = Chr LF \<or> i = Chr CR then Inr r
           else if i = EOL then Inr (r\<lparr>state := START_RECORD\<rparr>)
           else Inl CsvError))"

text \<open>One line of input: its characters, then the end-of-line marker.\<close>

fun process_line :: "reader \<Rightarrow> pystr \<Rightarrow> pyexn + reader" where
  "process_line r [] = parse_process_char r EOL"
| "process_line r (c # cs) =
     (case parse_process_char r (Chr c) of
        Inl e \<Rightarrow> Inl e
      | Inr r' \<Rightarrow> process_line r' cs)"

text \<open>
  \<^verbatim>\<open>Reader_iternext\<close>, called until the input is exhausted. A record takes lines until
  the machine is back in \<open>START_RECORD\<close>; the parser is reset before the next
  record. When the lines run out inside a record (a field has characters, or a quoted
  field is open), the record read so far is returned.
\<close>

fun reader_rows :: "reader \<Rightarrow> pystr list \<Rightarrow> pyexn + pystr list list" where
  "reader_rows r [] =
     (if field r \<noteq> [] \<or> state r = IN_QUOTED_FIELD
      then Inr [saved (parse_save_field r)] else Inr [])"
| "reader_rows r (l # ls) =
     (case process_line r l of
        Inl e \<Rightarrow> Inl e
      | Inr r' \<Rightarrow>
          if state r' = START_RECORD then
            (case reader_rows parse_reset ls of
               Inl e \<Rightarrow> Inl e
             | Inr rows \<Rightarrow> Inr (saved r' # rows))
          else reader_rows r' ls)"

definition csv_reader :: "pystr list \<Rightarrow> pyexn + pystr list list" where
  "csv_reader ls = reader_rows parse_reset ls"

section \<open>Text files\<close>

text \<open>
  The file system maps a path to the text of the file there: the code points its bytes
  decode to (both helpers open the file with \<^verbatim>\<open>encoding='utf-8'\<close>). Writing goes
  through \<^verbatim>\<open>open(file_path, mode='a', newline='')\<close>: a missing file is created, and
  \<^verbatim>\<open>write\<close> encodes the string it is given and appends it as it is. The encoder is
  strict: a string with a code point that UTF-8 does not encode raises
  \<^verbatim>\<open>UnicodeEncodeError\<close>, and nothing of that string is written. What earlier calls
  wrote stays, and reaches the file when the \<^verbatim>\<open>with\<close> block closes it.
\<close>

type_synonym fs = "pystr \<rightharpoonup> pystr"

definition encodable :: "codepoint \<Rightarrow> bool" where
  "encodable c \<longleftrightarrow> c < 0xD800 \<or> (0xDFFF < c \<and> c < 0x110000)"

definition file_write :: "pystr \<Rightarrow> pystr \<Rightarrow> pyexn + pystr" where
  "file_write out s = (if list_all encodable s then Inr (out @ s) else Inl UnicodeEncodeError)"

text \<open>
  Reading goes through \<^verbatim>\<open>open(file_path, mode='r')\<close> with no \<^verbatim>\<open>newline\<close> argument,
  so the text is read with universal newlines: CR LF and a lone CR both arrive as LF.
  The csv reader takes the translated text line by line, each line ending with its LF
  (the last one may lack it).
\<close>

fun universal_newlines :: "pystr \<Rightarrow> pystr" where
  "universal_newlines [] = []"
| "universal_newlines [c] = (if c = CR then [LF] else [c])"
| "universal_newlines (c # d # cs) =
     (if c = CR then
        (if d = LF then LF # universal_newlines cs else LF # universal_newlines (d # cs))
      else c # universal_newlines (d # cs))"

fun readlines_from :: "pystr \<Rightarrow> pystr \<Rightarrow> pystr list" where
  "readlines_from cur [] = (if cur = [] then [] else [cur])"
| "readlines_from cur (c # cs) =
     (if c = LF then (cur @ [c]) # readlines_from [] cs else readlines_from (cur @ [c]) cs)"

definition readlines :: "pystr \<Rightarrow> pystr list" where
  "readlines s = readlines_from [] s"

section \<open>DictWriter and DictReader\<close>

text \<open>
  \<^verbatim>\<open>DictWriter._dict_to_list\<close> with \<^verbatim>\<open>extrasaction='raise'\<close> and \<^verbatim>\<open>restval=''\<close>: a key
  of the row outside the field names raises \<^verbatim>\<open>ValueError\<close>; a missing key gives the
  empty string. A row that is no dictionary has no \<^verbatim>\<open>keys\<close>.
\<close>

definition dict_to_list :: "pykey list \<Rightarrow> pyval \<Rightarrow> pyexn + pyval list" where
  "dict_to_list fieldnames rowdict =
     (case keys rowdict of
        Inl e \<Rightarrow> Inl e
      | Inr ks \<Rightarrow>
          if list_ex (\<lambda>k. k \<notin> set fieldnames) ks then Inl ValueError
          else (case rowdict of
                  PDict d \<Rightarrow>
                    Inr (map (\<lambda>key. case map_of d key of Some v \<Rightarrow> v | None \<Rightarrow> PStr []) fieldnames)
                | _ \<Rightarrow> Inl AttributeError))"

text \<open>
  The \<^verbatim>\<open>writerow\<close> of the csv writer on the text \<open>out\<close> written so far: the line is
  built, then written.
\<close>

definition writer_writerow ::
  "(pyval \<Rightarrow> pyexn + pystr) \<Rightarrow> pyval list \<Rightarrow> pystr \<Rightarrow> pyexn + pystr" where
  "writer_writerow py_str cells out =
     (case csv_writerow py_str cells of
        Inl e \<Rightarrow> Inl e
      | Inr line \<Rightarrow> file_write out line)"

text \<open>\<^verbatim>\<open>DictWriter.writerow\<close>: the cells of the row, then the row of the writer.\<close>

definition dictwriter_writerow ::
  "(pyval \<Rightarrow> pyexn + pystr) \<Rightarrow> pykey list \<Rightarrow> pyval \<Rightarrow> pystr \<Rightarrow> pyexn + pystr" where
  "dictwriter_writerow py_str fieldnames rowdict out =
     (case dict_to_list fieldnames rowdict of
        Inl e \<Rightarrow> Inl e
      | Inr cells \<Rightarrow> writer_writerow py_str cells out)"

text \<open>
  \<^verbatim>\<open>DictWriter.writeheader\<close>: the row of the dictionary that maps each field name to
  itself, so the cells are the field names.
\<close>

definition writeheader ::
  "(pyval \<Rightarrow> pyexn + pystr) \<Rightarrow> pykey list \<Rightarrow> pystr \<Rightarrow> pyexn + pystr" where
  "writeheader py_str fieldnames out = writer_writerow py_str (map key_val fieldnames) out"

text \<open>
  The loop \<^verbatim>\<open>for row in data: writer.writerow(row)\<close> on the text written so far. A
  row that raises ends the loop; what was written before it stays in the file, which
  the \<^verbatim>\<open>with\<close> block closes.
\<close>

fun write_rows ::
  "(pyval \<Rightarrow> pyexn + pystr) \<Rightarrow> pykey list \<Rightarrow> pyval list \<Rightarrow> pystr \<Rightarrow> (pyexn + unit) \<times> pystr" where
  "write_rows py_str fieldnames [] out = (Inr (), out)"
| "write_rows py_str fieldnames (row # rest) out =
     (case dictwriter_writerow py_str fieldnames row out of
        Inl e \<Rightarrow> (Inl e, out)
      | Inr out' \<Rightarrow> write_rows py_str fieldnames rest out')"

text \<open>
  \<^verbatim>\<open>DictReader.__next__\<close>: \<^verbatim>\<open>dict(zip(fieldnames, row))\<close>, then the surplus cells of a
  long row under the key \<^verbatim>\<open>None\<close>, or \<^verbatim>\<open>None\<close> for the missing cells of a short row.
\<close>

definition row_dict :: "pystr list \<Rightarrow> pystr list \<Rightarrow> pyval" where
  "row_dict fieldnames row =
     (let d = foldl (\<lambda>d (k, v). dict_setitem d (StrKey k) (PStr v)) [] (zip fieldnames row);
          lf = length fieldnames;
          lr = length row
      in PDict (if lf < lr then dict_setitem d NoneKey (PList (map PStr (drop lf row)))
                else if lf > lr then
                  foldl (\<lambda>d k. dict_setitem d (StrKey k) PNone) d (drop lr fieldnames)
                else d))"

text \<open>
  \<^verbatim>\<open>list(csv.DictReader(f))\<close>: the first row gives the field names, empty rows after
  it are skipped, every other row becomes a dictionary.
\<close>

fun dict_reader :: "pystr list list \<Rightarrow> pyval list" where
  "dict_reader [] = []"
| "dict_reader (fieldnames # rows) =
     map (row_dict fieldnames) (filter (\<lambda>row. row \<noteq> []) rows)"

section \<open>The storage helpers of \<^verbatim>\<open>main.py\<close>\<close>

definition STORAGE_FILE :: pystr where
  "STORAGE_FILE = py ''data.csv''"

text \<open>
  \<^verbatim>\<open>save_data_to_csv\<close> (lines 40 to 54). The result is the exception raised, if any,
  and the file system afterwards. Once \<^verbatim>\<open>open\<close> has run the file exists, whatever is
  raised after it.
\<close>

definition save_data_to_csv ::
  "(pyval \<Rightarrow> pyexn + pystr) \<Rightarrow> pyval \<Rightarrow> pystr \<Rightarrow> fs \<Rightarrow> (pyexn + unit) \<times> fs" where
  "save_data_to_csv py_str data file_path fs =
     (if \<not> truthy data then (Inr (), fs)
      else
        (case getitem0 data of
           Inl e \<Rightarrow> (Inl e, fs)
         | Inr first \<Rightarrow>
             (case keys first of
                Inl e \<Rightarrow> (Inl e, fs)
              | Inr fieldnames \<Rightarrow>
                  (let file_exists = (fs file_path \<noteq> None);
                       old = (case fs file_path of None \<Rightarrow> [] | Some text \<Rightarrow> text)
                   in (case (if \<not> file_exists then writeheader py_str fieldnames old
                             else Inr old) of
                         Inl e \<Rightarrow> (Inl e, fs(file_path \<mapsto> old))
                       | Inr out \<Rightarrow>
                           (case py_iter data of
                              Inl e \<Rightarrow> (Inl e, fs(file_path \<mapsto> out))
                            | Inr rows \<Rightarrow>
                                (case write_rows py_str fieldnames rows out of
                                   (res, out') \<Rightarrow> (res, fs(file_path \<mapsto> out')))))))))"

text \<open>
  \<^verbatim>\<open>load_data_from_csv\<close> (lines 56 to 64). Reading leaves the file system as it is.
  \<open>file_rows\<close> is what \<^verbatim>\<open>csv.reader\<close> finds in the text of the opened file.
\<close>

definition file_rows :: "pystr \<Rightarrow> pyexn + pystr list list" where
  "file_rows text = csv_reader (readlines (universal_newlines text))"

definition load_data_from_csv :: "pystr \<Rightarrow> fs \<Rightarrow> (pyexn + pyval) \<times> fs" where
  "load_data_from_csv file_path fs =
     (case fs file_path of
        None \<Rightarrow> (Inr (PList []), fs)
      | Some text \<Rightarrow>
          (case file_rows text of
             Inl e \<Rightarrow> (Inl e, fs)
           | Inr rows \<Rightarrow> (Inr (PList (dict_reader rows)), fs)))"

section \<open>The script \<^verbatim>\<open>main\<close>\<close>

text \<open>
  The generator \<^verbatim>\<open>query_llm\<close>, \<^verbatim>\<open>json.loads\<close>, \<^verbatim>\<open>json.dumps(_, indent=2)\<close> and
  \<^verbatim>\<open>str\<close> are not code of the script: they are parameters of the model. The four
  prompts of one run differ in their first line, so a function from prompt to
  response can answer each call as it likes. The prompts are the f-strings of the
  source, character for character.
\<close>

text \<open>The operator \<^verbatim>\<open>sub in s\<close> on strings.\<close>

fun str_contains :: "pystr \<Rightarrow> pystr \<Rightarrow> bool" where
  "str_contains [] sub = (sub = [])"
| "str_contains (c # cs) sub = (take (length sub) (c # cs) = sub \<or> str_contains cs sub)"

definition user_input :: pystr where
  "user_input =
    py ''Yesterday I had a meeting about project X from 2pm to 3pm. I also need to schedule a follow-up at 10am tomorrow.''"

definition extract_prompt :: pystr where
  "extract_prompt =
    [LF] @ py ''    The user provided the following activity details:'' @ [LF] @ py ''    '' @
    [DQUOTE] @ user_input @ [DQUOTE, LF, LF] @
    py ''    Extract the main activities and their times as structured text without additional commentary.'' @
    [LF] @ py ''    Each activity should have a date, title, and detail.'' @ [LF] @
    py ''    If a date/time isn'' @ [39] @
    py ''t explicitly given, infer a reasonable date or leave it blank.'' @ [LF] @ py ''    ''"

definition json_prompt :: "pystr \<Rightarrow> pystr" where
  "json_prompt extracted_activities =
    [LF] @ py ''    Take the following extracted activities:'' @ [LF] @ py ''    '' @ [DQUOTE] @
    extracted_activities @ [DQUOTE, LF, LF] @
    py ''    Convert them into a JSON array of objects. '' @ [LF] @
    py ''    Each object should have keys: '' @ [DQUOTE] @ py ''date'' @ [DQUOTE] @ py '', '' @
    [DQUOTE] @ py ''title'' @ [DQUOTE] @ py '', '' @ [DQUOTE] @ py ''detail'' @ [DQUOTE] @ py ''.'' @
    [LF] @ py ''    ''"

definition user_request :: pystr where
  "user_request =
    py ''What is my schedule for tomorrow?''"

definition react_prompt :: pystr where
  "react_prompt =
    [LF] @ py ''    The user asked: '' @ [DQUOTE] @ user_request @ [DQUOTE, LF, LF] @
    py ''    You have some stored activities in a CSV file. '' @ [LF] @
    py ''    Determine if you need to retrieve and update your data from the storage before answering.'' @
    [LF] @ py ''    Respond with '' @ [DQUOTE] @ py ''NEED_DATA_UPDATE'' @ [DQUOTE] @
    py '' if you must retrieve data before answering, otherwise '' @ [DQUOTE] @
    py ''NO_UPDATE_NEEDED'' @ [DQUOTE] @ py ''.'' @ [LF] @ py ''    ''"

text \<open>The summarization prompt of the branch that reloads the stored table.\<close>

definition augment_prompt_stored :: "pystr \<Rightarrow> pystr" where
  "augment_prompt_stored dumped =
    [LF] @ py ''        You have the following stored activities:'' @ [LF] @ py ''        '' @
    dumped @ [LF, LF] @ py ''        The user wants their schedule for tomorrow. '' @ [LF] @
    py ''        Summarize the activities scheduled for tomorrow in a clear, concise manner.'' @
    [LF] @ py ''        If no activities are scheduled, say so.'' @ [LF] @ py ''        ''"

text \<open>The summarization prompt of the branch that keeps the batch in memory.\<close>

definition augment_prompt_memory :: "pystr \<Rightarrow> pystr" where
  "augment_prompt_memory dumped =
    [LF] @ py ''        You have the following activities in memory:'' @ [LF] @ py ''        '' @
    dumped @ [LF, LF] @ py ''        The user wants their schedule for tomorrow. '' @ [LF] @
    py ''        Summarize the activities scheduled for tomorrow in a clear, concise manner.'' @
    [LF] @ py ''        If no activities are scheduled, say so.'' @ [LF] @ py ''        ''"

text \<open>
  Lines 92 to 96: \<^verbatim>\<open>except json.JSONDecodeError\<close> catches that exception and no
  other.
\<close>

definition parse_activities :: "(pystr \<Rightarrow> pyexn + pyval) \<Rightarrow> pystr \<Rightarrow> pyexn + pyval" where
  "parse_activities json_loads json_str =
     (case json_loads json_str of
        Inl e \<Rightarrow> if e = JSONDecodeError then Inr (PList []) else Inl e
      | Inr v \<Rightarrow> Inr v)"

text \<open>Steps 1 to 3 of \<^verbatim>\<open>main\<close> (lines 71 to 96): the value of \<^verbatim>\<open>activities_data\<close>.\<close>

definition extraction_pipeline ::
  "(pystr \<Rightarrow> pystr) \<Rightarrow> (pystr \<Rightarrow> pyexn + pyval) \<Rightarrow> pyexn + pyval" where
  "extraction_pipeline query_llm json_loads =
     (let extracted_activities = query_llm extract_prompt;
          json_str = query_llm (json_prompt extracted_activities)
      in parse_activities json_loads json_str)"

text \<open>
  What a run shows: the prompt of the last generator call and the arguments of the
  calls of \<^verbatim>\<open>print\<close>, in order.
\<close>

record outcome =
  summary_prompt :: pystr
  printed :: "pystr list"

text \<open>Steps 6 to 10 of \<^verbatim>\<open>main\<close> (lines 107 to 151).\<close>

definition query_pipeline ::
  "(pystr \<Rightarrow> pystr) \<Rightarrow> (pyval \<Rightarrow> pystr) \<Rightarrow> pyval \<Rightarrow> fs \<Rightarrow> (pyexn + outcome) \<times> fs" where
  "query_pipeline query_llm json_dumps current_memory fs =
     (let react_response = query_llm react_prompt in
      if str_contains react_response (py ''NEED_DATA_UPDATE'') then
        (case load_data_from_csv STORAGE_FILE fs of
           (Inl e, fs') \<Rightarrow> (Inl e, fs')
         | (Inr updated_data, fs') \<Rightarrow>
             (let augment_prompt = augment_prompt_stored (json_dumps updated_data);
                  schedule_report = query_llm augment_prompt
              in (Inr \<lparr>summary_prompt = augment_prompt,
                        printed = [py ''Schedule for tomorrow:'', schedule_report]\<rparr>, fs')))
      else
        (let augment_prompt = augment_prompt_memory (json_dumps current_memory);
             schedule_report = query_llm augment_prompt
         in (Inr \<lparr>summary_prompt = augment_prompt,
                   printed = [py ''Schedule for tomorrow:'', schedule_report]\<rparr>, fs)))"

text \<open>
  \<^verbatim>\<open>main\<close> (lines 69 to 151): an exception that nothing catches ends the run.
\<close>

definition main ::
  "(pystr \<Rightarrow> pystr) \<Rightarrow> (pystr \<Rightarrow> pyexn + pyval) \<Rightarrow> (pyval \<Rightarrow> pystr) \<Rightarrow> (pyval \<Rightarrow> pyexn + pystr)
   \<Rightarrow> fs \<Rightarrow> (pyexn + outcome) \<times> fs" where
  "main query_llm json_loads json_dumps py_str fs =
     (case extraction_pipeline query_llm json_loads of
        Inl e \<Rightarrow> (Inl e, fs)
      | Inr activities_data \<Rightarrow>
          (case save_data_to_csv py_str activities_data STORAGE_FILE fs of
             (Inl e, fs1) \<Rightarrow> (Inl e, fs1)
           | (Inr u, fs1) \<Rightarrow>
               (let current_memory = activities_data
                in query_pipeline query_llm json_dumps current_memory fs1)))"

section \<open>The reader, character by character\<close>

text \<open>
  For the proofs, the reader is restated over the whole text instead of its lines:
  \<open>run\<close> feeds the characters to \<open>parse_process_char\<close>, with the end-of-line
  marker after every LF, and returns the records completed, the parser it ends in and
  whether it stopped inside a line; \<open>at_end\<close> is what the reader does when the lines
  run out. \<open>scan\<close> puts the two together and equals \<open>reader_rows\<close> on the lines of
  the text (lemma \<open>reader_rows_scan\<close>). A text \<open>ends_record\<close> when the reader,
  having read it, stands at the start of a record and of a line.
\<close>

fun feed_chars :: "reader \<Rightarrow> pystr \<Rightarrow> pyexn + reader" where
  "feed_chars r [] = Inr r"
| "feed_chars r (c # cs) =
     (case parse_process_char r (Chr c) of Inl e \<Rightarrow> Inl e | Inr r' \<Rightarrow> feed_chars r' cs)"

definition finish :: "reader \<Rightarrow> pyexn + pystr list list" where
  "finish r = (if field r \<noteq> [] \<or> state r = IN_QUOTED_FIELD
      then Inr [saved (parse_save_field r)] else Inr [])"

fun run :: "reader \<Rightarrow> bool \<Rightarrow> pystr \<Rightarrow> pyexn + (pystr list list \<times> reader \<times> bool)" where
  "run r mid [] = Inr ([], r, mid)"
| "run r mid (c # cs) =
     (case parse_process_char r (Chr c) of
        Inl e \<Rightarrow> Inl e
      | Inr r1 \<Rightarrow>
          if c = LF then
            (case parse_process_char r1 EOL of
               Inl e \<Rightarrow> Inl e
             | Inr r2 \<Rightarrow>
                 if state r2 = START_RECORD then
                   (case run parse_reset False cs of
                      Inl e \<Rightarrow> Inl e
                    | Inr (rows, rf, mf) \<Rightarrow> Inr (saved r2 # rows, rf, mf))
                 else run r2 False cs)
          else run r1 True cs)"

definition at_end :: "reader \<Rightarrow> bool \<Rightarrow> pyexn + pystr list list" where
  "at_end r mid =
     (if mid then
        (case parse_process_char r EOL of
           Inl e \<Rightarrow> Inl e
         | Inr r' \<Rightarrow> if state r' = START_RECORD then Inr [saved r'] else finish r')
      else finish r)"

definition scan :: "reader \<Rightarrow> bool \<Rightarrow> pystr \<Rightarrow> pyexn + pystr list list" where
  "scan r mid t =
     (case run r mid t of
        Inl e \<Rightarrow> Inl e
      | Inr (rows, rf, mf) \<Rightarrow>
          (case at_end rf mf of Inl e \<Rightarrow> Inl e | Inr rest \<Rightarrow> Inr (rows @ rest)))"

definition ends_record :: "pystr \<Rightarrow> bool" where
  "ends_record text =
     (case run parse_reset False (universal_newlines text) of
        Inl e \<Rightarrow> False
      | Inr (rows, rf, mf) \<Rightarrow> rf = parse_reset \<and> \<not> mf)"

definition field_end_state :: "pystr \<Rightarrow> parser_state" where
  "field_end_state f =
     (if list_ex special f then QUOTE_IN_QUOTED_FIELD else if f = [] then START_FIELD else IN_FIELD)"

definition rows_text :: "pystr list list \<Rightarrow> pystr" where
  "rows_text rows = concat (map (\<lambda>row. record_text row @ [LF]) rows)"

text \<open>The text the writer produces for rows of strings, each with its CR LF.\<close>

definition written :: "pystr list list \<Rightarrow> pystr" where
  "written rows = concat (map (\<lambda>row. record_text row @ [CR, LF]) rows)"

section \<open>Vocabulary of the claims\<close>

text \<open>
  The cells \<^verbatim>\<open>DictWriter\<close> writes for a dictionary that it accepts: the value of each
  field name, the empty string for a missing one. A dictionary \<open>fits\<close> the field
  names when it has no key outside them.
\<close>

definition row_cells :: "pykey list \<Rightarrow> (pykey \<times> pyval) list \<Rightarrow> pyval list" where
  "row_cells fieldnames d =
     map (\<lambda>key. case map_of d key of Some v \<Rightarrow> v | None \<Rightarrow> PStr []) fieldnames"

definition fits :: "pykey list \<Rightarrow> (pykey \<times> pyval) list \<Rightarrow> bool" where
  "fits fieldnames d \<longleftrightarrow> list_all (\<lambda>k. k \<in> set fieldnames) (map fst d)"

text \<open>
  The text of a cell that is a string, and the lines the writer builds for the field
  names and for a dictionary of strings.
\<close>

definition text_of :: "pyval \<Rightarrow> pystr" where
  "text_of v = (case v of PStr s \<Rightarrow> s | _ \<Rightarrow> [])"

definition key_text :: "pykey \<Rightarrow> pystr" where
  "key_text k = (case k of StrKey s \<Rightarrow> s | NoneKey \<Rightarrow> [])"

definition header_line :: "pykey list \<Rightarrow> pystr" where
  "header_line fieldnames = record_text (map key_text fieldnames) @ [CR, LF]"

definition row_line :: "pykey list \<Rightarrow> (pykey \<times> pyval) list \<Rightarrow> pystr" where
  "row_line fieldnames d = record_text (map text_of (row_cells fieldnames d)) @ [CR, LF]"

text \<open>
  A string that UTF-8 encodes: no lone surrogate in it. The values of a record are
  \<open>text_values\<close> when each is such a string, and field names are \<open>text_keys\<close> when
  each is such a string (or \<^verbatim>\<open>None\<close>, which is written as the empty field).
\<close>

definition utf8_text :: "pystr \<Rightarrow> bool" where
  "utf8_text s \<longleftrightarrow> list_all encodable s"

definition text_values :: "(pykey \<times> pyval) list \<Rightarrow> bool" where
  "text_values d \<longleftrightarrow> list_all (\<lambda>(k, v). case v of PStr s \<Rightarrow> utf8_text s | _ \<Rightarrow> False) d"

definition text_keys :: "pykey list \<Rightarrow> bool" where
  "text_keys fieldnames \<longleftrightarrow> list_all (\<lambda>k. utf8_text (key_text k)) fieldnames"

text \<open>
  A string the file stores and gives back unchanged: UTF-8 encodes it, there is no
  carriage return in it, and it is no longer than the field size limit of the reader.
\<close>

definition plain :: "pystr \<Rightarrow> bool" where
  "plain s \<longleftrightarrow> utf8_text s \<and> CR \<notin> set s \<and> length s \<le> field_limit"

text \<open>
  The values of a record are \<open>plain_values\<close> when each is a plain string, and field
  names are \<open>plain_keys\<close> when each is a plain string.
\<close>

definition plain_values :: "(pykey \<times> pyval) list \<Rightarrow> bool" where
  "plain_values d \<longleftrightarrow> list_all (\<lambda>(k, v). case v of PStr s \<Rightarrow> plain s | _ \<Rightarrow> False) d"

definition plain_keys :: "pykey list \<Rightarrow> bool" where
  "plain_keys fieldnames \<longleftrightarrow>
     list_all (\<lambda>k. case k of StrKey s \<Rightarrow> plain s | NoneKey \<Rightarrow> False) fieldnames"

text \<open>
  The dictionary \<^verbatim>\<open>DictReader\<close> builds for a record written under the field names: the
  same items, in the order of the field names.
\<close>

definition in_order :: "pykey list \<Rightarrow> (pykey \<times> pyval) list \<Rightarrow> (pykey \<times> pyval) list" where
  "in_order fieldnames d =
     map (\<lambda>key. (key, case map_of d key of Some v \<Rightarrow> v | None \<Rightarrow> PStr [])) fieldnames"

text \<open>A value is a list when it is a JSON array.\<close>

definition is_list :: "pyval \<Rightarrow> bool" where
  "is_list v = (case v of PList xs \<Rightarrow> True | _ \<Rightarrow> False)"

section \<open>Instances for the examples\<close>

text \<open>
  An instance of the parameter \<open>py_str\<close> for the closed examples. It is \<^verbatim>\<open>str()\<close> on
  the booleans, on strings and on \<^verbatim>\<open>None\<close>, and stands for nothing on other values:
  the cells of the examples are strings, which the writer never passes to it.
\<close>

definition example_str :: "pyval \<Rightarrow> pyexn + pystr" where
  "example_str v =
     (case v of
        PBool b \<Rightarrow> Inr (if b then py ''True'' else py ''False'')
      | PStr s \<Rightarrow> Inr s
      | _ \<Rightarrow> Inr (py ''None''))"

text \<open>
  Instances of the other parameters of \<open>main\<close>. The generator answers the decision
  prompt with \<open>decision\<close> and every other prompt with \<open>reply\<close>. \<open>example_loads\<close>
  agrees with \<^verbatim>\<open>json.loads\<close> on the texts the examples use: \<^verbatim>\<open>[]\<close> is the empty
  list, \<^verbatim>\<open>42\<close> is a number, \<^verbatim>\<open>not json\<close> raises \<^verbatim>\<open>JSONDecodeError\<close>, and
  \<open>open_brackets\<close>, which is \<^verbatim>\<open>'[' * 100000\<close>, raises \<^verbatim>\<open>RecursionError\<close>: the
  decoder calls itself once for every array it enters, and the interpreter stops it at
  its recursion limit, long before the text ends. \<open>example_dumps\<close> agrees with
  \<^verbatim>\<open>json.dumps(_, indent=2)\<close> on the empty list, on \<^verbatim>\<open>None\<close> and on the list of the
  one dictionary \<^verbatim>\<open>{"a": "1"}\<close>, the values the examples pass to it.
\<close>

definition example_llm :: "pystr \<Rightarrow> pystr \<Rightarrow> pystr \<Rightarrow> pystr" where
  "example_llm reply decision prompt = (if prompt = react_prompt then decision else reply)"

definition open_brackets :: pystr where
  "open_brackets = replicate 100000 0x5B"

definition example_loads :: "pystr \<Rightarrow> pyexn + pyval" where
  "example_loads s =
     (if s = py ''[]'' then Inr (PList [])
      else if s = py ''42'' then Inr (PInt 42)
      else if s = open_brackets then Inl RecursionError
      else Inl JSONDecodeError)"

definition example_dumps :: "pyval \<Rightarrow> pystr" where
  "example_dumps v =
     (if v = PList [] then py ''[]''
      else if v = PList [PDict [(StrKey (py ''a''), PStr (py ''1''))]] then
        py ''['' @ [LF] @ py ''  {'' @ [LF] @ py ''    '' @ [DQUOTE] @ py ''a'' @ [DQUOTE] @
        py '': '' @ [DQUOTE] @ py ''1'' @ [DQUOTE, LF] @ py ''  }'' @ [LF] @ py '']''
      else py ''null'')"

section \<open>Properties of the csv reader and writer\<close>

lemma py_Nil [simp]: "py [] = []"
  by (simp add: py_def)

lemma py_Cons [simp]: "py (c # cs) = of_char c # py cs"
  by (simp add: py_def)

lemmas ppc_simps = parse_process_char.simps

declare parse_process_char.simps [simp del]

lemma parse_reset_sel [simp]:
  "state parse_reset = START_RECORD" "field parse_reset = []" "saved parse_reset = []"
  by (simp_all add: parse_reset_def)

lemma finish_reset [simp]: "finish parse_reset = Inr []"
  by (simp add: finish_def)

lemma scan_Nil [simp]:
  "scan r mid [] =
     (if mid then
        (case parse_process_char r EOL of
           Inl e \<Rightarrow> Inl e
         | Inr r' \<Rightarrow> if state r' = START_RECORD then Inr [saved r'] else finish r')
      else finish r)"
  by (simp add: scan_def at_end_def split: sum.splits)

lemma scan_Cons [simp]:
  "scan r mid (c # cs) =
     (case parse_process_char r (Chr c) of
        Inl e \<Rightarrow> Inl e
      | Inr r1 \<Rightarrow>
          if c = LF then
            (case parse_process_char r1 EOL of
               Inl e \<Rightarrow> Inl e
             | Inr r2 \<Rightarrow>
                 if state r2 = START_RECORD then
                   (case scan parse_reset False cs of
                      Inl e \<Rightarrow> Inl e
                    | Inr rows \<Rightarrow> Inr (saved r2 # rows))
                 else scan r2 False cs)
          else scan r1 True cs)"
  by (simp add: scan_def split: sum.splits prod.splits)

lemma feed_chars_snoc:
  "feed_chars r (a @ [c]) =
     (case feed_chars r a of Inl e \<Rightarrow> Inl e | Inr r' \<Rightarrow> parse_process_char r' (Chr c))"
  by (induction a arbitrary: r) (auto split: sum.splits)

lemma process_line_feed:
  "process_line r a =
     (case feed_chars r a of Inl e \<Rightarrow> Inl e | Inr r' \<Rightarrow> parse_process_char r' EOL)"
  by (induction a arbitrary: r) (auto split: sum.splits)

lemma reader_rows_feed_error:
  "feed_chars r0 cur = Inl e \<Longrightarrow> reader_rows r0 (readlines_from cur t) = Inl e"
proof (induction t arbitrary: cur)
  case Nil
  then have "cur \<noteq> []" by auto
  then show ?case using Nil by (simp add: process_line_feed)
next
  case (Cons c t)
  have "feed_chars r0 (cur @ [c]) = Inl e"
    using Cons.prems by (simp add: feed_chars_snoc)
  then show ?case using Cons.IH[of "cur @ [c]"]
    by (cases "c = LF") (simp_all add: process_line_feed)
qed

lemma reader_rows_scan:
  "feed_chars r0 cur = Inr r \<Longrightarrow>
   reader_rows r0 (readlines_from cur t) = scan r (cur \<noteq> []) t"
proof (induction t arbitrary: cur r r0)
  case Nil
  show ?case
  proof (cases "cur = []")
    case True
    then show ?thesis using Nil by (simp add: finish_def)
  next
    case False
    then show ?thesis using Nil
      by (simp add: process_line_feed finish_def split: sum.splits)
  qed
next
  case (Cons c t)
  show ?case
  proof (cases "parse_process_char r (Chr c)")
    case (Inl e)
    then have "feed_chars r0 (cur @ [c]) = Inl e"
      using Cons.prems by (simp add: feed_chars_snoc)
    then show ?thesis using Inl reader_rows_feed_error[of r0 "cur @ [c]" e t]
      by (cases "c = LF") (simp_all add: process_line_feed)
  next
    case (Inr r1)
    then have f: "feed_chars r0 (cur @ [c]) = Inr r1"
      using Cons.prems by (simp add: feed_chars_snoc)
    show ?thesis
    proof (cases "c = LF")
      case True
      have pl: "process_line r0 (cur @ [c]) = parse_process_char r1 EOL"
        using f by (simp add: process_line_feed)
      have fr: "feed_chars parse_reset [] = Inr parse_reset" by simp
      show ?thesis
      proof (cases "parse_process_char r1 EOL")
        case (Inl e)
        then show ?thesis using True Inr pl by simp
      next
        case r2: (Inr r2)
        show ?thesis
        proof (cases "state r2 = START_RECORD")
          case T: True
          then show ?thesis using True Inr pl r2 Cons.IH[OF fr] by simp
        next
          case F: False
          have "reader_rows r2 (readlines_from [] t) = scan r2 False t"
            using Cons.IH[of r2 "[]" r2] by simp
          then show ?thesis using True Inr pl r2 F by simp
        qed
      qed
    next
      case False
      then show ?thesis using Inr Cons.IH[OF f] by simp
    qed
  qed
qed

lemma run_mid: "t \<noteq> [] \<Longrightarrow> run r mid t = run r mid' t"
  by (cases t) simp_all

lemma run_step:
  "parse_process_char r (Chr c) = Inr r1 \<Longrightarrow> c \<noteq> LF \<Longrightarrow> run r mid (c # cs) = run r1 True cs"
  by simp

lemma run_step_end:
  "parse_process_char r (Chr LF) = Inr r1 \<Longrightarrow> parse_process_char r1 EOL = Inr r2 \<Longrightarrow>
   state r2 = START_RECORD \<Longrightarrow> saved r2 = sv \<Longrightarrow>
   run r mid (LF # cs) =
     (case run parse_reset False cs of
        Inl e \<Rightarrow> Inl e
      | Inr (rows, rf, mf) \<Rightarrow> Inr (sv # rows, rf, mf))"
  by (simp split: sum.splits)

lemma run_step_cont:
  "parse_process_char r (Chr LF) = Inr r1 \<Longrightarrow> parse_process_char r1 EOL = Inr r2 \<Longrightarrow>
   state r2 \<noteq> START_RECORD \<Longrightarrow> run r mid (LF # cs) = run r2 False cs"
  by simp

lemma run_append:
  "run r mid (x @ y) =
     (case run r mid x of
        Inl e \<Rightarrow> Inl e
      | Inr (a, r', m') \<Rightarrow>
          (case run r' m' y of
             Inl e \<Rightarrow> Inl e
           | Inr (b, rf, mf) \<Rightarrow> Inr (a @ b, rf, mf)))"
  by (induction x arbitrary: r mid) (auto split: sum.splits prod.splits)

declare run.simps(2) [simp del]

lemma run_quoted:
  "length acc + length f \<le> field_limit \<Longrightarrow>
   run \<lparr>state = IN_QUOTED_FIELD, field = acc, saved = sv\<rparr> mid (double_quotes f @ DQUOTE # rest) =
   run \<lparr>state = QUOTE_IN_QUOTED_FIELD, field = acc @ f, saved = sv\<rparr> True rest"
proof (induction f arbitrary: acc mid)
  case Nil
  have 1: "parse_process_char \<lparr>state = IN_QUOTED_FIELD, field = acc, saved = sv\<rparr> (Chr DQUOTE) =
           Inr \<lparr>state = QUOTE_IN_QUOTED_FIELD, field = acc, saved = sv\<rparr>"
    by (simp add: ppc_simps)
  show ?case using run_step[OF 1] by (simp add: double_quotes_def)
next
  case (Cons c f)
  have lt: "length acc < field_limit" using Cons.prems by simp
  have ih: "run \<lparr>state = IN_QUOTED_FIELD, field = acc @ [c], saved = sv\<rparr> m
              (double_quotes f @ DQUOTE # rest) =
            run \<lparr>state = QUOTE_IN_QUOTED_FIELD, field = acc @ c # f, saved = sv\<rparr> True rest" for m
    using Cons.IH[of "acc @ [c]" m] Cons.prems by simp
  show ?case
  proof (cases "c = DQUOTE")
    case True
    have 1: "parse_process_char \<lparr>state = IN_QUOTED_FIELD, field = acc, saved = sv\<rparr> (Chr DQUOTE) =
             Inr \<lparr>state = QUOTE_IN_QUOTED_FIELD, field = acc, saved = sv\<rparr>"
      by (simp add: ppc_simps)
    have 2: "parse_process_char \<lparr>state = QUOTE_IN_QUOTED_FIELD, field = acc, saved = sv\<rparr> (Chr DQUOTE) =
             Inr \<lparr>state = IN_QUOTED_FIELD, field = acc @ [DQUOTE], saved = sv\<rparr>"
      using lt by (simp add: ppc_simps parse_add_char_def)
    have "double_quotes (c # f) @ DQUOTE # rest =
          DQUOTE # DQUOTE # double_quotes f @ DQUOTE # rest"
      using True by (simp add: double_quotes_def)
    then have "run \<lparr>state = IN_QUOTED_FIELD, field = acc, saved = sv\<rparr> mid
                 (double_quotes (c # f) @ DQUOTE # rest) =
               run \<lparr>state = QUOTE_IN_QUOTED_FIELD, field = acc, saved = sv\<rparr> True
                 (DQUOTE # double_quotes f @ DQUOTE # rest)"
      using run_step[OF 1] by simp
    also have "\<dots> = run \<lparr>state = IN_QUOTED_FIELD, field = acc @ [DQUOTE], saved = sv\<rparr> True
                 (double_quotes f @ DQUOTE # rest)"
      using run_step[OF 2] by simp
    finally show ?thesis using True ih[of True] by simp
  next
    case False
    have 1: "parse_process_char \<lparr>state = IN_QUOTED_FIELD, field = acc, saved = sv\<rparr> (Chr c) =
             Inr \<lparr>state = IN_QUOTED_FIELD, field = acc @ [c], saved = sv\<rparr>"
      using lt False by (simp add: ppc_simps parse_add_char_def)
    have 2: "parse_process_char \<lparr>state = IN_QUOTED_FIELD, field = acc @ [c], saved = sv\<rparr> EOL =
             Inr \<lparr>state = IN_QUOTED_FIELD, field = acc @ [c], saved = sv\<rparr>"
      by (simp add: ppc_simps)
    have e: "double_quotes (c # f) @ DQUOTE # rest = c # double_quotes f @ DQUOTE # rest"
      using False by (simp add: double_quotes_def)
    show ?thesis
    proof (cases "c = LF")
      case True
      have "run \<lparr>state = IN_QUOTED_FIELD, field = acc, saved = sv\<rparr> mid
              (LF # double_quotes f @ DQUOTE # rest) =
            run \<lparr>state = IN_QUOTED_FIELD, field = acc @ [c], saved = sv\<rparr> False
              (double_quotes f @ DQUOTE # rest)"
        using 1 2 True by (intro run_step_cont) simp_all
      then show ?thesis unfolding e using ih[of False] True by simp
    next
      case F: False
      show ?thesis unfolding e using ih[of True] run_step[OF 1 F] by simp
    qed
  qed
qed

lemma run_unquoted:
  "\<not> list_ex special f \<Longrightarrow> length acc + length f \<le> field_limit \<Longrightarrow> f \<noteq> [] \<Longrightarrow>
   run \<lparr>state = IN_FIELD, field = acc, saved = sv\<rparr> mid (f @ rest) =
   run \<lparr>state = IN_FIELD, field = acc @ f, saved = sv\<rparr> True rest"
proof (induction f arbitrary: acc mid)
  case Nil
  then show ?case by simp
next
  case (Cons c f)
  have c: "\<not> special c" "c \<noteq> LF" using Cons.prems by (auto simp: special_def)
  have 1: "parse_process_char \<lparr>state = IN_FIELD, field = acc, saved = sv\<rparr> (Chr c) =
           Inr \<lparr>state = IN_FIELD, field = acc @ [c], saved = sv\<rparr>"
    using Cons.prems c by (simp add: ppc_simps parse_add_char_def special_def is_eol_def)
  show ?case
  proof (cases "f = []")
    case True
    then show ?thesis using run_step[OF 1 c(2)] by simp
  next
    case False
    have "run \<lparr>state = IN_FIELD, field = acc @ [c], saved = sv\<rparr> True (f @ rest) =
          run \<lparr>state = IN_FIELD, field = (acc @ [c]) @ f, saved = sv\<rparr> True rest"
      using Cons.prems False by (intro Cons.IH) simp_all
    then show ?thesis using run_step[OF 1 c(2)] by simp
  qed
qed

lemma field_limit_pos: "0 < field_limit"
  by (simp add: field_limit_def)

lemma run_field:
  assumes "length f \<le> field_limit"
  shows "run \<lparr>state = START_FIELD, field = [], saved = sv\<rparr> mid (join_append f @ d # rest) =
         run \<lparr>state = field_end_state f, field = f, saved = sv\<rparr> mid (d # rest)"
proof (cases "list_ex special f")
  case True
  have 1: "parse_process_char \<lparr>state = START_FIELD, field = [], saved = sv\<rparr> (Chr DQUOTE) =
           Inr \<lparr>state = IN_QUOTED_FIELD, field = [], saved = sv\<rparr>"
    by (simp add: ppc_simps start_field_def is_eol_def)
  have "run \<lparr>state = IN_QUOTED_FIELD, field = [], saved = sv\<rparr> True
          (double_quotes f @ DQUOTE # d # rest) =
        run \<lparr>state = QUOTE_IN_QUOTED_FIELD, field = [] @ f, saved = sv\<rparr> True (d # rest)"
    using assms by (intro run_quoted) simp
  then show ?thesis using True run_step[OF 1] run_mid[of "d # rest" _ True mid]
    by (simp add: join_append_def field_end_state_def)
next
  case False
  show ?thesis
  proof (cases f)
    case Nil
    then show ?thesis using False
      by (simp add: join_append_def field_end_state_def)
  next
    case (Cons c f')
    have c: "\<not> special c" "c \<noteq> LF" using False Cons by (auto simp: special_def)
    have 1: "parse_process_char \<lparr>state = START_FIELD, field = [], saved = sv\<rparr> (Chr c) =
             Inr \<lparr>state = IN_FIELD, field = [c], saved = sv\<rparr>"
      using c field_limit_pos
      by (simp add: ppc_simps start_field_def parse_add_char_def special_def is_eol_def)
    show ?thesis
    proof (cases "f' = []")
      case True
      then show ?thesis using False Cons run_step[OF 1 c(2)] run_mid[of "d # rest" _ True mid]
        by (simp add: join_append_def field_end_state_def)
    next
      case F: False
      have "run \<lparr>state = IN_FIELD, field = [c], saved = sv\<rparr> True (f' @ d # rest) =
            run \<lparr>state = IN_FIELD, field = [c] @ f', saved = sv\<rparr> True (d # rest)"
        using assms False Cons F by (intro run_unquoted) simp_all
      then show ?thesis using False Cons run_step[OF 1 c(2)] run_mid[of "d # rest" _ True mid]
        by (simp add: join_append_def field_end_state_def)
    qed
  qed
qed

lemma field_end_state_cases:
  "field_end_state f = START_FIELD \<or> field_end_state f = IN_FIELD
   \<or> field_end_state f = QUOTE_IN_QUOTED_FIELD"
  by (simp add: field_end_state_def)

lemma ppc_end_comma:
  "st = START_FIELD \<or> st = IN_FIELD \<or> st = QUOTE_IN_QUOTED_FIELD \<Longrightarrow>
   parse_process_char \<lparr>state = st, field = f, saved = sv\<rparr> (Chr COMMA) =
     Inr \<lparr>state = START_FIELD, field = [], saved = sv @ [f]\<rparr>"
  by (auto simp: ppc_simps start_field_def is_eol_def parse_save_field_def)

lemma ppc_end_lf:
  "st = START_FIELD \<or> st = IN_FIELD \<or> st = QUOTE_IN_QUOTED_FIELD \<Longrightarrow>
   parse_process_char \<lparr>state = st, field = f, saved = sv\<rparr> (Chr LF) =
     Inr \<lparr>state = EAT_CRNL, field = [], saved = sv @ [f]\<rparr>"
  by (auto simp: ppc_simps start_field_def is_eol_def parse_save_field_def after_eol_def)

lemma ppc_eat_eol:
  "parse_process_char \<lparr>state = EAT_CRNL, field = f, saved = sv\<rparr> EOL =
     Inr \<lparr>state = START_RECORD, field = f, saved = sv\<rparr>"
  by (simp add: ppc_simps)

lemma run_record:
  assumes "fs \<noteq> []" and "\<forall>f\<in>set fs. length f \<le> field_limit"
  shows "run \<lparr>state = START_FIELD, field = [], saved = sv\<rparr> mid (join_record fs @ LF # rest) =
         (case run parse_reset False rest of
            Inl e \<Rightarrow> Inl e
          | Inr (rows, rf, mf) \<Rightarrow> Inr ((sv @ fs) # rows, rf, mf))"
  using assms
proof (induction fs arbitrary: sv mid rule: join_record.induct)
  case 1
  then show ?case by simp
next
  case (2 f)
  have a: "run \<lparr>state = START_FIELD, field = [], saved = sv\<rparr> mid (join_append f @ LF # rest) =
           run \<lparr>state = field_end_state f, field = f, saved = sv\<rparr> mid (LF # rest)"
    using 2 by (intro run_field) simp
  have "run \<lparr>state = field_end_state f, field = f, saved = sv\<rparr> mid (LF # rest) =
        (case run parse_reset False rest of
           Inl e \<Rightarrow> Inl e
         | Inr (rows, rf, mf) \<Rightarrow> Inr ((sv @ [f]) # rows, rf, mf))"
    by (rule run_step_end[OF ppc_end_lf[OF field_end_state_cases[of f]] ppc_eat_eol]) simp_all
  then show ?case using a by simp
next
  case (3 f g fs)
  have a: "run \<lparr>state = START_FIELD, field = [], saved = sv\<rparr> mid
             (join_append f @ COMMA # join_record (g # fs) @ LF # rest) =
           run \<lparr>state = field_end_state f, field = f, saved = sv\<rparr> mid
             (COMMA # join_record (g # fs) @ LF # rest)"
    using 3 by (intro run_field) simp
  have c: "run \<lparr>state = START_FIELD, field = [], saved = sv @ [f]\<rparr> True
             (join_record (g # fs) @ LF # rest) =
         (case run parse_reset False rest of
            Inl e \<Rightarrow> Inl e
          | Inr (rows, rf, mf) \<Rightarrow> Inr (((sv @ [f]) @ g # fs) # rows, rf, mf))"
    using 3 by (intro "3.IH") simp_all
  show ?case
    using a c run_step[OF ppc_end_comma[OF field_end_state_cases[of f]], of f sv mid]
    by (simp cong: sum.case_cong)
qed

lemma join_append_Nil: "join_append f = [] \<longleftrightarrow> f = []"
  by (auto simp: join_append_def)

lemma join_record_Nil: "join_record fs = [] \<longleftrightarrow> fs = [] \<or> fs = [[]]"
  by (induction fs rule: join_record.induct) (auto simp: join_append_Nil)

lemma hd_join_append: "join_append f \<noteq> [] \<Longrightarrow> hd (join_append f) \<noteq> LF \<and> hd (join_append f) \<noteq> CR"
  by (cases f) (auto simp: join_append_def special_def)

lemma hd_join_record: "join_record fs \<noteq> [] \<Longrightarrow> hd (join_record fs) \<noteq> LF \<and> hd (join_record fs) \<noteq> CR"
proof (induction fs rule: join_record.induct)
  case 1
  then show ?case by simp
next
  case (2 f)
  then show ?case using hd_join_append[of f] by simp
next
  case (3 f g fs)
  show ?case
  proof (cases "join_append f = []")
    case True
    then show ?thesis by simp
  next
    case False
    then show ?thesis using hd_join_append[of f] by simp
  qed
qed

lemma hd_record_text:
  "row \<noteq> [] \<Longrightarrow> record_text row \<noteq> [] \<and> hd (record_text row) \<noteq> LF \<and> hd (record_text row) \<noteq> CR"
  using hd_join_record[of row] by (auto simp: record_text_def)

lemma ppc_start_record:
  "c \<noteq> LF \<Longrightarrow> c \<noteq> CR \<Longrightarrow>
   parse_process_char \<lparr>state = START_RECORD, field = f, saved = sv\<rparr> (Chr c) =
   parse_process_char \<lparr>state = START_FIELD, field = f, saved = sv\<rparr> (Chr c)"
  by (simp add: ppc_simps)

lemma run_start_record:
  "t \<noteq> [] \<Longrightarrow> hd t \<noteq> LF \<Longrightarrow> hd t \<noteq> CR \<Longrightarrow>
   run \<lparr>state = START_RECORD, field = f, saved = sv\<rparr> mid t =
   run \<lparr>state = START_FIELD, field = f, saved = sv\<rparr> mid t"
  by (cases t) (simp_all add: run.simps(2) ppc_start_record)

lemma run_row:
  assumes "\<forall>f\<in>set row. length f \<le> field_limit"
  shows "run parse_reset mid (record_text row @ LF # rest) =
         (case run parse_reset False rest of
            Inl e \<Rightarrow> Inl e
          | Inr (rows, rf, mf) \<Rightarrow> Inr (row # rows, rf, mf))"
proof (cases "row = []")
  case True
  have 1: "parse_process_char parse_reset (Chr LF) = Inr \<lparr>state = EAT_CRNL, field = [], saved = []\<rparr>"
    by (simp add: ppc_simps parse_reset_def)
  show ?thesis using True run_step_end[OF 1 ppc_eat_eol, of "[]" mid rest]
    by (simp add: record_text_def cong: sum.case_cong)
next
  case False
  show ?thesis
  proof (cases "row = [[]]")
    case True
    have 1: "parse_process_char parse_reset (Chr DQUOTE) =
             Inr \<lparr>state = IN_QUOTED_FIELD, field = [], saved = []\<rparr>"
      by (simp add: ppc_simps parse_reset_def start_field_def is_eol_def)
    have 2: "parse_process_char \<lparr>state = IN_QUOTED_FIELD, field = [], saved = []\<rparr> (Chr DQUOTE) =
             Inr \<lparr>state = QUOTE_IN_QUOTED_FIELD, field = [], saved = []\<rparr>"
      by (simp add: ppc_simps)
    have 3: "run \<lparr>state = QUOTE_IN_QUOTED_FIELD, field = [], saved = []\<rparr> True (LF # rest) =
             (case run parse_reset False rest of
                Inl e \<Rightarrow> Inl e
              | Inr (rows, rf, mf) \<Rightarrow> Inr (([] @ [[]]) # rows, rf, mf))"
      by (rule run_step_end[OF ppc_end_lf ppc_eat_eol]) simp_all
    show ?thesis using True run_step[OF 1] run_step[OF 2] 3
      by (simp add: record_text_def join_append_Nil cong: sum.case_cong)
  next
    case F: False
    have ne: "join_record row \<noteq> []" using False F by (simp add: join_record_Nil)
    then have rt: "record_text row = join_record row" by (simp add: record_text_def)
    have "run \<lparr>state = START_RECORD, field = [], saved = []\<rparr> mid (join_record row @ LF # rest) =
          run \<lparr>state = START_FIELD, field = [], saved = []\<rparr> mid (join_record row @ LF # rest)"
      using ne hd_join_record[OF ne] by (intro run_start_record) simp_all
    also have "\<dots> = (case run parse_reset False rest of
            Inl e \<Rightarrow> Inl e
          | Inr (rows, rf, mf) \<Rightarrow> Inr (([] @ row) # rows, rf, mf))"
      using False assms by (intro run_record) simp_all
    finally show ?thesis by (simp add: rt parse_reset_def cong: sum.case_cong)
  qed
qed

lemma run_rows:
  assumes "\<forall>row\<in>set rows. \<forall>f\<in>set row. length f \<le> field_limit"
  shows "run parse_reset False (rows_text rows) = Inr (rows, parse_reset, False)"
  using assms
proof (induction rows)
  case Nil
  then show ?case by (simp add: rows_text_def)
next
  case (Cons row rows)
  have "run parse_reset False (record_text row @ LF # rows_text rows) =
        (case run parse_reset False (rows_text rows) of
            Inl e \<Rightarrow> Inl e
          | Inr (rs, rf, mf) \<Rightarrow> Inr (row # rs, rf, mf))"
    using Cons.prems by (intro run_row) simp
  then show ?case using Cons by (simp add: rows_text_def)
qed

subsection \<open>Files written by the writer\<close>

lemma un_no_cr: "CR \<notin> set a \<Longrightarrow> universal_newlines (a @ b) = a @ universal_newlines b"
proof (induction a)
  case Nil
  then show ?case by simp
next
  case (Cons c a)
  show ?case
  proof (cases "a @ b")
    case Nil
    then show ?thesis using Cons.prems by simp
  next
    case (Cons d ds)
    then show ?thesis using Cons.IH Cons.prems by auto
  qed
qed

lemma un_append:
  "b \<noteq> [] \<Longrightarrow> hd b \<noteq> LF \<Longrightarrow>
   universal_newlines (a @ b) = universal_newlines a @ universal_newlines b"
proof (induction a rule: universal_newlines.induct)
  case 1
  then show ?case by simp
next
  case (2 c)
  then show ?case by (cases b) auto
next
  case (3 c d cs)
  then show ?case by auto
qed

lemma double_quotes_no_cr: "CR \<notin> set f \<Longrightarrow> CR \<notin> set (double_quotes f)"
  by (induction f) (auto simp: double_quotes_def)

lemma join_append_no_cr: "CR \<notin> set f \<Longrightarrow> CR \<notin> set (join_append f)"
  by (simp add: join_append_def double_quotes_no_cr)

lemma join_record_no_cr: "\<forall>f\<in>set fs. CR \<notin> set f \<Longrightarrow> CR \<notin> set (join_record fs)"
  by (induction fs rule: join_record.induct) (auto simp: join_append_no_cr)

lemma record_text_no_cr: "\<forall>f\<in>set row. CR \<notin> set f \<Longrightarrow> CR \<notin> set (record_text row)"
  by (simp add: record_text_def join_record_no_cr)

lemma un_written:
  "\<forall>row\<in>set rows. \<forall>f\<in>set row. CR \<notin> set f \<Longrightarrow>
   universal_newlines (written rows) = rows_text rows"
proof (induction rows)
  case Nil
  then show ?case by (simp add: written_def rows_text_def)
next
  case (Cons row rows)
  have "CR \<notin> set (record_text row)" using Cons.prems by (intro record_text_no_cr) simp
  then have "universal_newlines (record_text row @ CR # LF # written rows) =
             record_text row @ universal_newlines (CR # LF # written rows)"
    by (rule un_no_cr)
  then show ?case using Cons by (simp add: written_def rows_text_def)
qed

lemma csv_reader_scan: "csv_reader (readlines t) = scan parse_reset False t"
  using reader_rows_scan[of parse_reset "[]" parse_reset t]
  by (simp add: csv_reader_def readlines_def)

lemma at_end_reset [simp]: "at_end parse_reset False = Inr []"
  by (simp add: at_end_def)

lemma file_rows_written:
  assumes "\<forall>row\<in>set rows. \<forall>f\<in>set row. plain f"
  shows "file_rows (written rows) = Inr rows"
proof -
  have "universal_newlines (written rows) = rows_text rows"
    using assms by (intro un_written) (simp add: plain_def)
  moreover have "run parse_reset False (rows_text rows) = Inr (rows, parse_reset, False)"
    using assms by (intro run_rows) (simp add: plain_def)
  ultimately show ?thesis
    by (simp add: file_rows_def csv_reader_scan scan_def)
qed

lemma ends_record_written:
  assumes "\<forall>row\<in>set rows. \<forall>f\<in>set row. plain f"
  shows "ends_record (written rows)"
proof -
  have "universal_newlines (written rows) = rows_text rows"
    using assms by (intro un_written) (simp add: plain_def)
  moreover have "run parse_reset False (rows_text rows) = Inr (rows, parse_reset, False)"
    using assms by (intro run_rows) (simp add: plain_def)
  ultimately show ?thesis by (simp add: ends_record_def)
qed

lemma written_Nil_or_hd:
  "\<forall>row\<in>set rows. row \<noteq> [] \<Longrightarrow> rows \<noteq> [] \<Longrightarrow> written rows \<noteq> [] \<and> hd (written rows) \<noteq> LF"
  using hd_record_text by (cases rows) (auto simp: written_def)

lemma file_rows_append_written:
  assumes e: "ends_record text" and old: "file_rows text = Inr old"
    and p: "\<forall>row\<in>set rows. \<forall>f\<in>set row. plain f"
    and ne: "\<forall>row\<in>set rows. row \<noteq> []"
  shows "file_rows (text @ written rows) = Inr (old @ rows) \<and> ends_record (text @ written rows)"
proof (cases "rows = []")
  case True
  then show ?thesis using e old by (simp add: written_def)
next
  case False
  have w: "universal_newlines (written rows) = rows_text rows"
    using p by (intro un_written) (simp add: plain_def)
  have r: "run parse_reset False (rows_text rows) = Inr (rows, parse_reset, False)"
    using p by (intro run_rows) (simp add: plain_def)
  have u: "universal_newlines (text @ written rows) = universal_newlines text @ rows_text rows"
    using written_Nil_or_hd[OF ne False] w by (simp add: un_append)
  obtain a where a: "run parse_reset False (universal_newlines text) = Inr (a, parse_reset, False)"
    using e by (auto simp: ends_record_def split: sum.splits)
  have "old = a" using old a by (simp add: file_rows_def csv_reader_scan scan_def)
  then show ?thesis using a r u
    by (simp add: file_rows_def csv_reader_scan scan_def run_append ends_record_def)
qed

lemma dict_to_list_dict:
  "dict_to_list fieldnames (PDict d) =
     (if fits fieldnames d then Inr (row_cells fieldnames d) else Inl ValueError)"
  by (auto simp: dict_to_list_def fits_def row_cells_def list_ex_iff list_all_iff)

lemma fits_own_keys: "fits (map fst d) d"
  by (simp add: fits_def list_all_iff)

text \<open>Rows of strings never reach \<open>py_str\<close>.\<close>

lemma cell_texts_strings:
  "\<forall>v\<in>set cells. v = PNone \<or> (\<exists>s. v = PStr s) \<Longrightarrow>
   cell_texts py_str cells = Inr (map text_of cells)"
  by (induction cells) (auto simp: cell_text_def text_of_def)

lemma utf8_text_Nil [simp]: "utf8_text []"
  by (simp add: utf8_text_def)

lemma utf8_text_append [simp]: "utf8_text (a @ b) \<longleftrightarrow> utf8_text a \<and> utf8_text b"
  by (simp add: utf8_text_def)

lemma utf8_text_Cons [simp]: "utf8_text (c # cs) \<longleftrightarrow> encodable c \<and> utf8_text cs"
  by (simp add: utf8_text_def)

lemma encodable_marks [simp]:
  "encodable DQUOTE" "encodable COMMA" "encodable CR" "encodable LF"
  by (simp_all add: encodable_def)

lemma utf8_double_quotes: "utf8_text f \<Longrightarrow> utf8_text (double_quotes f)"
  by (induction f) (auto simp: double_quotes_def)

lemma utf8_join_append: "utf8_text f \<Longrightarrow> utf8_text (join_append f)"
  by (simp add: join_append_def utf8_double_quotes)

lemma utf8_join_record: "\<forall>f\<in>set row. utf8_text f \<Longrightarrow> utf8_text (join_record row)"
  by (induction row rule: join_record.induct) (auto simp: utf8_join_append)

lemma utf8_record_text: "\<forall>f\<in>set row. utf8_text f \<Longrightarrow> utf8_text (record_text row)"
  by (simp add: record_text_def utf8_join_record)

lemma writer_writerow_strings:
  assumes "\<forall>v\<in>set cells. v = PNone \<or> (\<exists>s. v = PStr s)"
    and "\<forall>v\<in>set cells. utf8_text (text_of v)"
  shows "writer_writerow py_str cells out = Inr (out @ record_text (map text_of cells) @ [CR, LF])"
proof -
  have "utf8_text (record_text (map text_of cells) @ [CR, LF])"
    using assms(2) by (simp add: utf8_record_text)
  then show ?thesis
    using cell_texts_strings[OF assms(1), of py_str]
    by (simp add: writer_writerow_def csv_writerow_def file_write_def utf8_text_def)
qed

lemma text_values_cells:
  assumes "text_values d"
  shows "\<forall>v\<in>set (row_cells fieldnames d). (v = PNone \<or> (\<exists>s. v = PStr s)) \<and> utf8_text (text_of v)"
proof
  fix v assume "v \<in> set (row_cells fieldnames d)"
  then obtain k where v: "v = (case map_of d k of Some v \<Rightarrow> v | None \<Rightarrow> PStr [])"
    by (auto simp: row_cells_def)
  show "(v = PNone \<or> (\<exists>s. v = PStr s)) \<and> utf8_text (text_of v)"
  proof (cases "map_of d k")
    case None
    then show ?thesis using v by (simp add: text_of_def)
  next
    case (Some w)
    then have "(k, w) \<in> set d" by (rule map_of_SomeD)
    then have "case w of PStr s \<Rightarrow> utf8_text s | _ \<Rightarrow> False"
      using assms by (auto simp: text_values_def list_all_iff)
    then show ?thesis using v Some by (cases w) (simp_all add: text_of_def)
  qed
qed

lemma dictwriter_writerow_text:
  "fits fieldnames d \<Longrightarrow> text_values d \<Longrightarrow>
   dictwriter_writerow py_str fieldnames (PDict d) out = Inr (out @ row_line fieldnames d)"
  using text_values_cells[of d fieldnames]
  by (simp add: dictwriter_writerow_def dict_to_list_dict writer_writerow_strings row_line_def)


lemma text_of_key_val [simp]: "text_of (key_val k) = key_text k"
  by (simp add: text_of_def key_val_def key_text_def split: pykey.splits)

lemma writeheader_text:
  assumes "text_keys fieldnames"
  shows "writeheader py_str fieldnames out = Inr (out @ header_line fieldnames)"
proof -
  have 1: "\<forall>v\<in>set (map key_val fieldnames). v = PNone \<or> (\<exists>s. v = PStr s)"
    by (auto simp: key_val_def split: pykey.splits)
  have 2: "\<forall>v\<in>set (map key_val fieldnames). utf8_text (text_of v)"
    using assms by (auto simp: text_keys_def list_all_iff)
  show ?thesis
    using writer_writerow_strings[OF 1 2, of py_str out]
    by (simp add: writeheader_def header_line_def comp_def)
qed


lemma write_rows_text:
  "\<forall>r\<in>set recs. fits fieldnames r \<and> text_values r \<Longrightarrow>
   write_rows py_str fieldnames (map PDict recs) out =
     (Inr (), out @ concat (map (row_line fieldnames) recs))"
  by (induction recs arbitrary: out) (simp_all add: dictwriter_writerow_text)


text \<open>
  \<open>save_data_to_csv\<close> on a list of dictionaries: the text the rows are written after
  is the text of the file, or the header line on a destination that does not exist.
\<close>

lemma save_rows:
  assumes "fs file_path = None \<longrightarrow> text_keys (map fst d)"
  shows "save_data_to_csv py_str (PList (PDict d # rows)) file_path fs =
     (case write_rows py_str (map fst d) (PDict d # rows)
             (case fs file_path of None \<Rightarrow> header_line (map fst d) | Some content \<Rightarrow> content) of
        (res, out) \<Rightarrow> (res, fs(file_path \<mapsto> out)))"
  using assms
  by (cases "fs file_path") (simp_all add: save_data_to_csv_def writeheader_text)

lemma save_text:
  assumes "fs file_path = None \<longrightarrow> text_keys (map fst d)"
    and "\<forall>r\<in>set (d # ds). fits (map fst d) r \<and> text_values r"
  shows "save_data_to_csv py_str (PList (map PDict (d # ds))) file_path fs =
     (Inr (),
      fs(file_path \<mapsto>
           (case fs file_path of None \<Rightarrow> header_line (map fst d) | Some content \<Rightarrow> content) @
           concat (map (row_line (map fst d)) (d # ds))))"
  using assms(1) save_rows[where fs = fs and file_path = file_path and d = d
      and py_str = py_str and rows = "map PDict ds"]
    write_rows_text[OF assms(2), of py_str]
  by simp


subsection \<open>What the helpers write and read back\<close>

lemma map_of_plain_values:
  "plain_values d \<Longrightarrow> map_of d k = Some v \<Longrightarrow> \<exists>s. v = PStr s \<and> plain s"
  by (auto simp: plain_values_def list_all_iff dest!: map_of_SomeD split: pyval.splits)

lemma plain_Nil [simp]: "plain []"
  by (simp add: plain_def)

lemma plain_text_values: "plain_values d \<Longrightarrow> text_values d"
  by (auto simp: plain_values_def text_values_def list_all_iff plain_def split: pyval.splits)

lemma plain_text_keys: "plain_keys fieldnames \<Longrightarrow> text_keys fieldnames"
  by (auto simp: plain_keys_def text_keys_def list_all_iff plain_def key_text_def
      split: pykey.splits)

lemma row_cells_plain:
  assumes "plain_values d"
  shows "\<forall>f\<in>set (map text_of (row_cells fieldnames d)). plain f"
proof
  fix f assume "f \<in> set (map text_of (row_cells fieldnames d))"
  then obtain k where k: "k \<in> set fieldnames"
    and f: "f = text_of (case map_of d k of Some v \<Rightarrow> v | None \<Rightarrow> PStr [])"
    by (auto simp: row_cells_def)
  show "plain f"
  proof (cases "map_of d k")
    case None
    then show ?thesis using f by (simp add: text_of_def)
  next
    case (Some v)
    then obtain s where "v = PStr s" "plain s" using map_of_plain_values[OF assms] by blast
    then show ?thesis using f Some by (simp add: text_of_def)
  qed
qed

lemma key_text_plain: "plain_keys fieldnames \<Longrightarrow> \<forall>f\<in>set (map key_text fieldnames). plain f"
  by (auto simp: plain_keys_def list_all_iff key_text_def split: pykey.splits)

lemma header_written: "header_line fieldnames = written [map key_text fieldnames]"
  by (simp add: header_line_def written_def)

lemma rows_written:
  "concat (map (row_line fieldnames) recs) =
   written (map (\<lambda>r. map text_of (row_cells fieldnames r)) recs)"
  by (induction recs) (simp_all add: written_def row_line_def)

lemma written_append: "written (a @ b) = written a @ written b"
  by (simp add: written_def)

text \<open>Reading a row back into a dictionary.\<close>

lemma dict_setitem_fresh: "k \<notin> set (map fst d) \<Longrightarrow> dict_setitem d k v = d @ [(k, v)]"
  by (induction d) auto

lemma foldl_setitem_zip:
  "distinct (map fst d @ ks) \<Longrightarrow> length vs = length ks \<Longrightarrow>
   foldl (\<lambda>d (k, v). dict_setitem d k v) d (zip ks vs) = d @ zip ks vs"
proof (induction ks arbitrary: d vs)
  case Nil
  then show ?case by simp
next
  case (Cons k ks)
  then obtain v vs' where vs: "vs = v # vs'" by (cases vs) auto
  have "dict_setitem d k v = d @ [(k, v)]"
    using Cons.prems by (intro dict_setitem_fresh) auto
  moreover have "foldl (\<lambda>d (k, v). dict_setitem d k v) (d @ [(k, v)]) (zip ks vs') =
                 (d @ [(k, v)]) @ zip ks vs'"
    using Cons.prems vs by (intro Cons.IH) auto
  ultimately show ?case using vs by simp
qed

lemma row_dict_zip:
  assumes "distinct hdr" "length row = length hdr"
  shows "row_dict hdr row = PDict (zip (map StrKey hdr) (map PStr row))"
proof -
  have "foldl (\<lambda>d (k, v). dict_setitem d (StrKey k) (PStr v)) [] (zip hdr row) =
        foldl (\<lambda>d (k, v). dict_setitem d k v) [] (zip (map StrKey hdr) (map PStr row))"
    by (simp add: zip_map_map foldl_map case_prod_unfold)
  also have "\<dots> = [] @ zip (map StrKey hdr) (map PStr row)"
    using assms by (intro foldl_setitem_zip) (simp_all add: distinct_map inj_on_def)
  finally show ?thesis using assms by (simp add: row_dict_def)
qed

lemma key_text_StrKey:
  "list_all (\<lambda>k. case k of StrKey s \<Rightarrow> True | NoneKey \<Rightarrow> False) fieldnames \<Longrightarrow>
   map StrKey (map key_text fieldnames) = fieldnames"
  by (induction fieldnames) (auto simp: key_text_def split: pykey.splits)

lemma cells_PStr:
  "plain_values d \<Longrightarrow>
   map PStr (map text_of (row_cells fieldnames d)) = row_cells fieldnames d"
proof -
  assume p: "plain_values d"
  have "PStr (text_of (case map_of d k of Some v \<Rightarrow> v | None \<Rightarrow> PStr [])) =
        (case map_of d k of Some v \<Rightarrow> v | None \<Rightarrow> PStr [])" for k
  proof (cases "map_of d k")
    case None
    then show ?thesis by (simp add: text_of_def)
  next
    case (Some v)
    then obtain s where "v = PStr s" using map_of_plain_values[OF p] by blast
    then show ?thesis using Some by (simp add: text_of_def)
  qed
  then show ?thesis by (simp add: row_cells_def)
qed

lemma zip_in_order: "zip fieldnames (row_cells fieldnames d) = in_order fieldnames d"
  by (simp add: row_cells_def in_order_def zip_map2 zip_same_conv_map)

lemma row_dict_written:
  assumes "distinct hdr" "plain_values d"
  shows "row_dict hdr (map text_of (row_cells (map StrKey hdr) d)) =
         PDict (in_order (map StrKey hdr) d)"
proof -
  have "row_dict hdr (map text_of (row_cells (map StrKey hdr) d)) =
        PDict (zip (map StrKey hdr) (map PStr (map text_of (row_cells (map StrKey hdr) d))))"
    using assms by (intro row_dict_zip) (simp_all add: row_cells_def)
  then show ?thesis using cells_PStr[OF assms(2)] zip_in_order by simp
qed

lemma set_in_order:
  assumes "distinct (map fst d)" "set (map fst d) = set fieldnames"
  shows "set (in_order fieldnames d) = set d"
proof -
  have "(k, v) \<in> set (in_order fieldnames d) \<longleftrightarrow> (k, v) \<in> set d" for k v
  proof
    assume "(k, v) \<in> set (in_order fieldnames d)"
    then have k: "k \<in> set fieldnames" and v: "v = (case map_of d k of Some v \<Rightarrow> v | None \<Rightarrow> PStr [])"
      by (auto simp: in_order_def)
    from k assms(2) have "k \<in> fst ` set d" by simp
    then obtain w where "map_of d k = Some w" by (meson map_of_eq_None_iff not_Some_eq)
    then show "(k, v) \<in> set d" using v by (auto dest: map_of_SomeD)
  next
    assume "(k, v) \<in> set d"
    then have "map_of d k = Some v" using assms(1) by simp
    moreover have "k \<in> set fieldnames" using \<open>(k, v) \<in> set d\<close> assms(2) by force
    ultimately show "(k, v) \<in> set (in_order fieldnames d)" by (force simp: in_order_def)
  qed
  then show ?thesis by auto
qed

lemma keys_in_order [simp]: "map fst (in_order fieldnames d) = fieldnames"
  by (simp add: in_order_def comp_def)

lemma fits_same_keys: "set (map fst r) = set fieldnames \<Longrightarrow> fits fieldnames r"
  by (auto simp: fits_def list_all_iff)

lemma takeWhile_all: "list_all P xs \<Longrightarrow> takeWhile P xs = xs"
  by (induction xs) auto

lemma distinct_key_text:
  "plain_keys fieldnames \<Longrightarrow> distinct fieldnames \<Longrightarrow> distinct (map key_text fieldnames)"
  by (auto simp: plain_keys_def list_all_iff distinct_map inj_on_def key_text_def split: pykey.splits)

lemma plain_keys_StrKey:
  "plain_keys fieldnames \<Longrightarrow> map StrKey (map key_text fieldnames) = fieldnames"
  by (intro key_text_StrKey) (auto simp: plain_keys_def list_all_iff split: pykey.splits)

lemma save_plain:
  assumes "fs file_path = None \<longrightarrow> plain_keys (map fst d)"
    and "\<forall>r\<in>set (d # ds). set (map fst r) = set (map fst d) \<and> plain_values r"
  shows "save_data_to_csv py_str (PList (map PDict (d # ds))) file_path fs =
     (Inr (),
      fs(file_path \<mapsto>
           (case fs file_path of None \<Rightarrow> written [map key_text (map fst d)] | Some content \<Rightarrow> content) @
           written (map (\<lambda>r. map text_of (row_cells (map fst d) r)) (d # ds))))"
proof -
  have 1: "fs file_path = None \<longrightarrow> text_keys (map fst d)"
    using assms(1) by (simp add: plain_text_keys)
  have 2: "\<forall>r\<in>set (d # ds). fits (map fst d) r \<and> text_values r"
    using assms(2) by (simp add: fits_same_keys plain_text_values)
  show ?thesis
    using 1 2 save_text[where fs = fs and file_path = file_path and d = d and ds = ds
        and py_str = py_str]
    by (simp only: rows_written header_written)
qed

lemma dict_reader_written:
  assumes "hdr \<noteq> []" "distinct hdr" "\<forall>r\<in>set recs. plain_values r"
  shows "map (row_dict hdr)
           (filter (\<lambda>row. row \<noteq> [])
              (map (\<lambda>r. map text_of (row_cells (map StrKey hdr) r)) recs)) =
         map (\<lambda>r. PDict (in_order (map StrKey hdr) r)) recs"
proof -
  have "filter (\<lambda>row. row \<noteq> [])
          (map (\<lambda>r. map text_of (row_cells (map StrKey hdr) r)) recs) =
        map (\<lambda>r. map text_of (row_cells (map StrKey hdr) r)) recs"
    using assms(1) by (simp add: row_cells_def filter_id_conv)
  then show ?thesis using assms row_dict_written[of hdr] by simp
qed

lemma save_then_load_fresh:
  assumes fresh: "fs file_path = None" and ne: "d \<noteq> []" and pk: "plain_keys (map fst d)"
    and recs: "\<forall>r\<in>set (d # ds). distinct (map fst r) \<and> set (map fst r) = set (map fst d) \<and> plain_values r"
  shows "\<exists>fs'. save_data_to_csv py_str (PList (map PDict (d # ds))) file_path fs = (Inr (), fs') \<and>
           load_data_from_csv file_path fs' =
             (Inr (PList (map (\<lambda>r. PDict (in_order (map fst d) r)) (d # ds))), fs')"
proof -
  let ?fn = "map fst d"
  let ?hdr = "map key_text ?fn"
  let ?rows = "map (\<lambda>r. map text_of (row_cells ?fn r)) (d # ds)"
  let ?fs' = "fs(file_path \<mapsto> written (?hdr # ?rows))"
  have fn: "map StrKey ?hdr = ?fn" using pk by (rule plain_keys_StrKey)
  have "save_data_to_csv py_str (PList (map PDict (d # ds))) file_path fs =
       (Inr (), fs(file_path \<mapsto> written [?hdr] @ written ?rows))"
    using fresh pk recs save_plain[of fs file_path d ds py_str] by simp
  then have s: "save_data_to_csv py_str (PList (map PDict (d # ds))) file_path fs = (Inr (), ?fs')"
    using written_append[of "[?hdr]" ?rows] by simp
  have "\<forall>row\<in>set (?hdr # ?rows). \<forall>f\<in>set row. plain f"
    using key_text_plain[OF pk] row_cells_plain[of _ ?fn] recs by auto
  then have fr: "file_rows (written (?hdr # ?rows)) = Inr (?hdr # ?rows)"
    by (rule file_rows_written)
  have d: "distinct ?hdr" using pk recs by (intro distinct_key_text) simp_all
  have "map (row_dict ?hdr) (filter (\<lambda>row. row \<noteq> [])
           (map (\<lambda>r. map text_of (row_cells (map StrKey ?hdr) r)) (d # ds))) =
        map (\<lambda>r. PDict (in_order (map StrKey ?hdr) r)) (d # ds)"
    using ne d recs by (intro dict_reader_written) simp_all
  then have "dict_reader (?hdr # ?rows) = map (\<lambda>r. PDict (in_order ?fn r)) (d # ds)"
    by (simp only: fn dict_reader.simps)
  then have "load_data_from_csv file_path ?fs' =
        (Inr (PList (map (\<lambda>r. PDict (in_order ?fn r)) (d # ds))), ?fs')"
    using fr by (simp add: load_data_from_csv_def)
  then show ?thesis using s by blast
qed

lemma dict_reader_append:
  "dict_reader ((hdr # body) @ rows) =
     dict_reader (hdr # body) @ map (row_dict hdr) (filter (\<lambda>row. row \<noteq> []) rows)"
  by simp

lemma save_then_load_existing:
  assumes ex: "fs file_path = Some content" and e: "ends_record content"
    and old: "file_rows content = Inr (hdr # body)" and ne: "hdr \<noteq> []"
    and fn: "map fst d = map StrKey hdr"
    and recs: "\<forall>r\<in>set (d # ds). distinct (map fst r) \<and> set (map fst r) = set (map fst d) \<and> plain_values r"
  shows "\<exists>new. save_data_to_csv py_str (PList (map PDict (d # ds))) file_path fs =
             (Inr (), fs(file_path \<mapsto> content @ new)) \<and>
           load_data_from_csv file_path (fs(file_path \<mapsto> content @ new)) =
             (Inr (PList (dict_reader (hdr # body) @
                          map (\<lambda>r. PDict (in_order (map fst d) r)) (d # ds))),
              fs(file_path \<mapsto> content @ new)) \<and>
           ends_record (content @ new) \<and>
           (\<exists>body'. file_rows (content @ new) = Inr (hdr # body'))"
proof -
  let ?fn = "map fst d"
  let ?rows = "map (\<lambda>r. map text_of (row_cells ?fn r)) (d # ds)"
  let ?fs' = "fs(file_path \<mapsto> content @ written ?rows)"
  have s: "save_data_to_csv py_str (PList (map PDict (d # ds))) file_path fs = (Inr (), ?fs')"
    using ex recs save_plain[of fs file_path d ds py_str] by simp
  have p: "\<forall>row\<in>set ?rows. \<forall>f\<in>set row. plain f"
    using row_cells_plain[of _ ?fn] recs by auto
  have n: "\<forall>row\<in>set ?rows. row \<noteq> []"
    using ne fn by (simp add: row_cells_def)
  have fr: "file_rows (content @ written ?rows) = Inr ((hdr # body) @ ?rows)"
    and er: "ends_record (content @ written ?rows)"
    using file_rows_append_written[OF e old p n] by simp_all
  have hb: "\<exists>body'. file_rows (content @ written ?rows) = Inr (hdr # body')"
    using fr by simp
  have "distinct (map StrKey hdr)" using recs fn by simp
  then have d: "distinct hdr" by (simp add: distinct_map)
  have "map (row_dict hdr) (filter (\<lambda>row. row \<noteq> [])
           (map (\<lambda>r. map text_of (row_cells (map StrKey hdr) r)) (d # ds))) =
        map (\<lambda>r. PDict (in_order (map StrKey hdr) r)) (d # ds)"
    using ne d recs by (intro dict_reader_written) simp_all
  then have "dict_reader ((hdr # body) @ ?rows) =
        dict_reader (hdr # body) @ map (\<lambda>r. PDict (in_order ?fn r)) (d # ds)"
    by (simp only: dict_reader_append fn)
  then have "load_data_from_csv file_path ?fs' =
        (Inr (PList (dict_reader (hdr # body) @
                     map (\<lambda>r. PDict (in_order ?fn r)) (d # ds))), ?fs')"
    using fr by (simp add: load_data_from_csv_def)
  then show ?thesis using s er hb by blast
qed

text \<open>
  A table written on a fresh destination ends at a record boundary and has the first
  record's field names as its header row, so the next append finds what
  \<open>save_then_load_existing\<close> asks for.
\<close>

lemma fresh_table_ends_record:
  assumes fresh: "fs file_path = None" and pk: "plain_keys (map fst d)"
    and recs: "\<forall>r\<in>set (d # ds). set (map fst r) = set (map fst d) \<and> plain_values r"
  shows "\<exists>content body.
           snd (save_data_to_csv py_str (PList (map PDict (d # ds))) file_path fs) file_path =
             Some content \<and>
           ends_record content \<and>
           file_rows content = Inr (map key_text (map fst d) # body)"
proof -
  let ?fn = "map fst d"
  let ?hdr = "map key_text ?fn"
  let ?rows = "map (\<lambda>r. map text_of (row_cells ?fn r)) (d # ds)"
  have "save_data_to_csv py_str (PList (map PDict (d # ds))) file_path fs =
       (Inr (), fs(file_path \<mapsto> written [?hdr] @ written ?rows))"
    using fresh pk recs save_plain[of fs file_path d ds py_str] by simp
  then have s: "snd (save_data_to_csv py_str (PList (map PDict (d # ds))) file_path fs) file_path =
       Some (written (?hdr # ?rows))"
    using written_append[of "[?hdr]" ?rows] by simp
  have p: "\<forall>row\<in>set (?hdr # ?rows). \<forall>f\<in>set row. plain f"
    using key_text_plain[OF pk] row_cells_plain[of _ ?fn] recs by auto
  show ?thesis
    using s file_rows_written[OF p] ends_record_written[OF p] by blast
qed

text \<open>
  Whatever \<open>save_data_to_csv\<close> is given, and whether it returns or raises, an existing
  file keeps its text as a prefix and no other file changes.
\<close>

lemma file_write_appends: "file_write out s = Inr out' \<Longrightarrow> \<exists>new. out' = out @ new"
  by (auto simp: file_write_def split: if_splits)

lemma writer_writerow_appends:
  "writer_writerow py_str cells out = Inr out' \<Longrightarrow> \<exists>new. out' = out @ new"
  using file_write_appends by (auto simp: writer_writerow_def split: sum.splits)

lemma dictwriter_writerow_appends:
  "dictwriter_writerow py_str fieldnames row out = Inr out' \<Longrightarrow> \<exists>new. out' = out @ new"
  using writer_writerow_appends by (auto simp: dictwriter_writerow_def split: sum.splits)

lemma write_rows_appends:
  "\<exists>new. snd (write_rows py_str fieldnames rows out) = out @ new"
proof (induction rows arbitrary: out)
  case Nil
  then show ?case by simp
next
  case (Cons row rows)
  show ?case
  proof (cases "dictwriter_writerow py_str fieldnames row out")
    case (Inl e)
    then show ?thesis by simp
  next
    case (Inr out')
    obtain a where a: "out' = out @ a"
      using dictwriter_writerow_appends[OF Inr] by blast
    obtain b where "snd (write_rows py_str fieldnames rows out') = out' @ b"
      using Cons.IH by blast
    then have "snd (write_rows py_str fieldnames (row # rows) out) = out @ (a @ b)"
      using Inr a by simp
    then show ?thesis ..
  qed
qed

lemma save_only_appends:
  assumes "fs file_path = Some content"
  shows "\<exists>new. snd (save_data_to_csv py_str data file_path fs) = fs(file_path \<mapsto> content @ new)"
proof -
  have "fs = fs(file_path \<mapsto> content @ [])"
    using assms by (simp add: map_upd_triv)
  then have same: "\<exists>new. fs = fs(file_path \<mapsto> content @ new)" ..
  show ?thesis
  proof (cases "truthy data")
    case False
    then show ?thesis using same by (simp add: save_data_to_csv_def)
  next
    case True
    show ?thesis
    proof (cases "getitem0 data")
      case (Inl e)
      then show ?thesis using True same by (simp add: save_data_to_csv_def)
    next
      case first: (Inr first)
      show ?thesis
      proof (cases "keys first")
        case (Inl e)
        then show ?thesis using True first same by (simp add: save_data_to_csv_def)
      next
        case fn: (Inr fieldnames)
        show ?thesis
        proof (cases "py_iter data")
          case (Inl e)
          then have "snd (save_data_to_csv py_str data file_path fs) =
              fs(file_path \<mapsto> content @ [])"
            using True first fn assms by (simp add: save_data_to_csv_def)
          then show ?thesis ..
        next
          case (Inr rows)
          obtain new where "snd (write_rows py_str fieldnames rows content) = content @ new"
            using write_rows_appends by blast
          then have "snd (save_data_to_csv py_str data file_path fs) =
              fs(file_path \<mapsto> content @ new)"
            using True first fn Inr assms
            by (auto simp: save_data_to_csv_def split: prod.splits)
          then show ?thesis ..
        qed
      qed
    qed
  qed
qed

text \<open>A field of more characters than the limit stops the reader.\<close>

lemma run_long_field:
  "run parse_reset mid (replicate (Suc field_limit) (120 :: codepoint) @ rest) = Inl CsvError"
proof -
  let ?x = "120 :: codepoint"
  have sp: "\<not> special ?x" by (simp add: special_def)
  have 1: "parse_process_char parse_reset (Chr ?x) = Inr \<lparr>state = IN_FIELD, field = [?x], saved = []\<rparr>"
    using field_limit_pos
    by (simp add: ppc_simps parse_reset_def start_field_def parse_add_char_def is_eol_def)
  have ne: "replicate (field_limit - 1) ?x \<noteq> []"
    by (simp add: field_limit_def)
  have 2: "run \<lparr>state = IN_FIELD, field = [?x], saved = []\<rparr> True
             (replicate (field_limit - 1) ?x @ ?x # rest) =
           run \<lparr>state = IN_FIELD, field = [?x] @ replicate (field_limit - 1) ?x, saved = []\<rparr> True
             (?x # rest)"
    using sp ne field_limit_pos by (intro run_unquoted) (simp_all add: list_ex_iff)
  have 3: "parse_process_char
             \<lparr>state = IN_FIELD, field = [?x] @ replicate (field_limit - 1) ?x, saved = []\<rparr> (Chr ?x) =
           Inl CsvError"
    using field_limit_pos by (simp add: ppc_simps parse_add_char_def is_eol_def)
  have "replicate (Suc field_limit) ?x @ rest =
        ?x # replicate (field_limit - 1) ?x @ ?x # rest"
    using field_limit_pos
    by (metis Suc_pred' append_Cons replicate_Suc replicate_app_Cons_same)
  then show ?thesis
    using run_step[OF 1, of mid] 2 3 by (simp add: run.simps(2))
qed

subsection \<open>The pipelines of \<^verbatim>\<open>main\<close>\<close>

lemma take_is_sub: "take (length sub) xs = sub \<longleftrightarrow> (\<exists>b. xs = sub @ b)"
proof
  assume "take (length sub) xs = sub"
  then have "xs = sub @ drop (length sub) xs" by (metis append_take_drop_id)
  then show "\<exists>b. xs = sub @ b" ..
next
  assume "\<exists>b. xs = sub @ b"
  then show "take (length sub) xs = sub" by auto
qed

lemma str_contains_iff: "str_contains s sub \<longleftrightarrow> (\<exists>a b. s = a @ sub @ b)"
proof (induction s)
  case Nil
  then show ?case by auto
next
  case (Cons c cs)
  have "(\<exists>a b. c # cs = a @ sub @ b) \<longleftrightarrow> (\<exists>b. c # cs = sub @ b) \<or> (\<exists>a b. cs = a @ sub @ b)"
  proof
    assume "\<exists>a b. c # cs = a @ sub @ b"
    then obtain a b where ab: "c # cs = a @ sub @ b" by blast
    show "(\<exists>b. c # cs = sub @ b) \<or> (\<exists>a b. cs = a @ sub @ b)"
    proof (cases a)
      case Nil
      then show ?thesis using ab by auto
    next
      case (Cons x a')
      then have "cs = a' @ sub @ b" using ab by simp
      then show ?thesis by blast
    qed
  next
    assume "(\<exists>b. c # cs = sub @ b) \<or> (\<exists>a b. cs = a @ sub @ b)"
    then show "\<exists>a b. c # cs = a @ sub @ b"
    proof
      assume "\<exists>b. c # cs = sub @ b"
      then obtain b where "c # cs = [] @ sub @ b" by auto
      then show ?thesis by blast
    next
      assume "\<exists>a b. cs = a @ sub @ b"
      then obtain a b where "c # cs = (c # a) @ sub @ b" by auto
      then show ?thesis by blast
    qed
  qed
  then show ?case using Cons.IH take_is_sub[of sub "c # cs"] by simp
qed

lemma query_pipeline_update:
  "str_contains (query_llm react_prompt) (py ''NEED_DATA_UPDATE'') \<Longrightarrow>
   query_pipeline query_llm json_dumps current_memory fs =
     (case load_data_from_csv STORAGE_FILE fs of
        (Inl e, fs') \<Rightarrow> (Inl e, fs')
      | (Inr updated_data, fs') \<Rightarrow>
          (Inr \<lparr>summary_prompt = augment_prompt_stored (json_dumps updated_data),
                 printed = [py ''Schedule for tomorrow:'',
                            query_llm (augment_prompt_stored (json_dumps updated_data))]\<rparr>, fs'))"
  by (simp add: query_pipeline_def Let_def split: prod.splits sum.splits)

lemma query_pipeline_memory:
  "\<not> str_contains (query_llm react_prompt) (py ''NEED_DATA_UPDATE'') \<Longrightarrow>
   query_pipeline query_llm json_dumps current_memory fs =
     (Inr \<lparr>summary_prompt = augment_prompt_memory (json_dumps current_memory),
            printed = [py ''Schedule for tomorrow:'',
                       query_llm (augment_prompt_memory (json_dumps current_memory))]\<rparr>, fs)"
  by (simp add: query_pipeline_def Let_def)

lemma main_after_save:
  "extraction_pipeline query_llm json_loads = Inr batch \<Longrightarrow>
   save_data_to_csv py_str batch STORAGE_FILE fs = (Inr u, fs1) \<Longrightarrow>
   main query_llm json_loads json_dumps py_str fs = query_pipeline query_llm json_dumps batch fs1"
  by (simp add: main_def)

lemma save_not_a_list:
  "truthy v \<Longrightarrow> \<not> is_list v \<Longrightarrow> \<exists>e. save_data_to_csv py_str v file_path fs = (Inl e, fs)"
  by (cases v) (auto simp: save_data_to_csv_def is_list_def split: list.splits)

subsection \<open>Evaluating the model on concrete inputs\<close>

lemmas eval_defs =
  save_data_to_csv_def load_data_from_csv_def file_rows_def writeheader_def
  dictwriter_writerow_def writer_writerow_def file_write_def encodable_def csv_writerow_def
  record_text_def cell_text_def key_val_def join_append_def special_def double_quotes_def
  dict_to_list_def readlines_def csv_reader_def ppc_simps start_field_def is_eol_def
  after_eol_def parse_add_char_def parse_save_field_def parse_reset_def field_limit_def
  row_dict_def example_str_def

lemmas run_eval = run.simps(2) ends_record_def

lemma length_open_brackets: "length open_brackets = 100000"
  by (simp add: open_brackets_def)

lemma open_brackets_long: "length s < 100000 \<Longrightarrow> open_brackets \<noteq> s \<and> s \<noteq> open_brackets"
proof -
  assume "length s < 100000"
  then have "length s \<noteq> length open_brackets" by (simp add: length_open_brackets)
  then show ?thesis by auto
qed

lemmas prompt_defs =
  example_llm_def react_prompt_def extract_prompt_def json_prompt_def augment_prompt_stored_def
  augment_prompt_memory_def user_input_def user_request_def

lemma rows_with_same_items:
  assumes "\<forall>r\<in>set recs. distinct (map fst r) \<and> set (map fst r) = set fieldnames"
  shows "length (map (in_order fieldnames) recs) = length recs \<and>
         (\<forall>i<length (map (in_order fieldnames) recs).
             set (map (in_order fieldnames) recs ! i) = set (recs ! i) \<and>
             map fst (map (in_order fieldnames) recs ! i) = fieldnames)"
  using assms by (simp add: set_in_order)

section \<open>The claims\<close>

subsection \<open>C6: appending an empty batch\<close>

text \<open>
  C6. For every destination state (existing or not), \<open>save_data_to_csv\<close> with an empty
  Record Batch is a no-op: it returns normally, the file system (so the content of
  the destination, and whether it exists) is unchanged, and \<open>load_data_from_csv\<close>
  afterwards returns what it returned before.
\<close>

theorem save_empty_batch_noop:
  "save_data_to_csv py_str (PList []) file_path fs = (Inr (), fs) \<and>
   load_data_from_csv file_path (snd (save_data_to_csv py_str (PList []) file_path fs)) =
     load_data_from_csv file_path fs"
  by (simp add: save_data_to_csv_def)

theorem save_empty_batch_noop_witness:
  "save_data_to_csv example_str (PList []) (py ''data.csv'')
       [py ''data.csv'' \<mapsto> py ''a'' @ [CR, LF] @ py ''1'' @ [CR, LF]]
     = (Inr (), [py ''data.csv'' \<mapsto> py ''a'' @ [CR, LF] @ py ''1'' @ [CR, LF]]) \<and>
   load_data_from_csv (py ''data.csv'')
     (snd (save_data_to_csv example_str (PList []) (py ''data.csv'')
        [py ''data.csv'' \<mapsto> py ''a'' @ [CR, LF] @ py ''1'' @ [CR, LF]])) =
     load_data_from_csv (py ''data.csv'')
       [py ''data.csv'' \<mapsto> py ''a'' @ [CR, LF] @ py ''1'' @ [CR, LF]] \<and>
   save_data_to_csv example_str (PList []) (py ''data.csv'') Map.empty = (Inr (), Map.empty)"
  using save_empty_batch_noop[of example_str "py ''data.csv''"
      "[py ''data.csv'' \<mapsto> py ''a'' @ [CR, LF] @ py ''1'' @ [CR, LF]]"]
    save_empty_batch_noop[of example_str "py ''data.csv''" Map.empty]
  by simp

subsection \<open>C7: loading from a destination that does not exist\<close>

text \<open>
  C7. For every destination path that does not exist, \<open>load_data_from_csv\<close> returns
  the empty list and raises nothing.
\<close>

theorem load_missing_file_empty:
  "fs file_path = None \<Longrightarrow> load_data_from_csv file_path fs = (Inr (PList []), fs)"
  by (simp add: load_data_from_csv_def)

theorem load_missing_file_empty_witness:
  "(Map.empty :: fs) (py ''data.csv'') = None \<and>
   load_data_from_csv (py ''data.csv'') Map.empty = (Inr (PList []), Map.empty)"
  using load_missing_file_empty[of Map.empty "py ''data.csv''"] by simp

subsection \<open>C8: loading twice\<close>

text \<open>
  C8. For every destination state, \<open>load_data_from_csv\<close> leaves the file system as it
  is, so a second call right after the first returns the same result (the same rows,
  or the same exception).
\<close>

theorem load_twice_same:
  "snd (load_data_from_csv file_path fs) = fs \<and>
   load_data_from_csv file_path (snd (load_data_from_csv file_path fs)) =
     load_data_from_csv file_path fs"
  by (simp add: load_data_from_csv_def split: option.splits sum.splits)

theorem load_twice_same_witness:
  "snd (load_data_from_csv (py ''data.csv'')
          [py ''data.csv'' \<mapsto> py ''a'' @ [CR, LF] @ py ''1'' @ [CR, LF]]) =
     [py ''data.csv'' \<mapsto> py ''a'' @ [CR, LF] @ py ''1'' @ [CR, LF]] \<and>
   load_data_from_csv (py ''data.csv'')
     (snd (load_data_from_csv (py ''data.csv'')
             [py ''data.csv'' \<mapsto> py ''a'' @ [CR, LF] @ py ''1'' @ [CR, LF]])) =
     load_data_from_csv (py ''data.csv'')
       [py ''data.csv'' \<mapsto> py ''a'' @ [CR, LF] @ py ''1'' @ [CR, LF]] \<and>
   fst (load_data_from_csv (py ''data.csv'')
          [py ''data.csv'' \<mapsto> py ''a'' @ [CR, LF] @ py ''1'' @ [CR, LF]]) =
     Inr (PList [PDict [(StrKey (py ''a''), PStr (py ''1''))]])"
proof -
  have "fst (load_data_from_csv (py ''data.csv'')
          [py ''data.csv'' \<mapsto> py ''a'' @ [CR, LF] @ py ''1'' @ [CR, LF]]) =
     Inr (PList [PDict [(StrKey (py ''a''), PStr (py ''1''))]])"
    by (simp add: eval_defs)
  then show ?thesis
    using load_twice_same[of "py ''data.csv''"
        "[py ''data.csv'' \<mapsto> py ''a'' @ [CR, LF] @ py ''1'' @ [CR, LF]]"]
    by simp
qed

subsection \<open>C1: append, then load, on a fresh destination\<close>

text \<open>
  C1, as amended. For every non-empty Record Batch on a destination that does not
  exist, where the first record has at least one field, its field names are plain
  strings (strings that UTF-8 encodes, so with no lone surrogate, with no carriage
  return and of at most 131072 code points), and every record has distinct keys, the
  same set of field names as the first and plain strings as values:
  \<open>save_data_to_csv\<close> returns normally, and \<open>load_data_from_csv\<close> on the destination
  then returns a list of dictionaries of the same length, the \<open>i\<close>-th with exactly the
  items of the \<open>i\<close>-th record (so every value is the string that was written), its
  keys in the order of the first record.
\<close>

theorem append_then_load_fresh:
  assumes "fs file_path = None" and "d \<noteq> []" and "plain_keys (map fst d)"
    and "\<forall>r\<in>set (d # ds). distinct (map fst r) \<and> set (map fst r) = set (map fst d) \<and> plain_values r"
  shows "\<exists>fs' rows.
           save_data_to_csv py_str (PList (map PDict (d # ds))) file_path fs = (Inr (), fs') \<and>
           load_data_from_csv file_path fs' = (Inr (PList (map PDict rows)), fs') \<and>
           length rows = length (d # ds) \<and>
           (\<forall>i<length rows. set (rows ! i) = set ((d # ds) ! i) \<and> map fst (rows ! i) = map fst d)"
proof -
  obtain fs' where 1: "save_data_to_csv py_str (PList (map PDict (d # ds))) file_path fs = (Inr (), fs')"
    and 2: "load_data_from_csv file_path fs' =
             (Inr (PList (map (\<lambda>r. PDict (in_order (map fst d) r)) (d # ds))), fs')"
    using assms save_then_load_fresh[where fs = fs and file_path = file_path and d = d
        and ds = ds and py_str = py_str]
    by blast
  let ?rows = "map (in_order (map fst d)) (d # ds)"
  have 3: "map (\<lambda>r. PDict (in_order (map fst d) r)) (d # ds) = map PDict ?rows"
    by simp
  have 4: "length ?rows = length (d # ds) \<and>
        (\<forall>i<length ?rows. set (?rows ! i) = set ((d # ds) ! i) \<and> map fst (?rows ! i) = map fst d)"
    using assms(4) by (intro rows_with_same_items) simp
  show ?thesis using 1 2 4 unfolding 3 by blast
qed

theorem append_then_load_fresh_witness:
  "(Map.empty :: fs) (py ''data.csv'') = None \<and>
   plain_keys [StrKey (py ''date''), StrKey (py ''title'')] \<and>
   plain_values [(StrKey (py ''date''), PStr (py ''2024-01-01'')), (StrKey (py ''title''), PStr (py ''a,b''))] \<and>
   plain_values [(StrKey (py ''title''), PStr [0x1F600, DQUOTE, LF]), (StrKey (py ''date''), PStr (py ''007''))] \<and>
   (\<exists>fs' rows.
      save_data_to_csv example_str
        (PList [PDict [(StrKey (py ''date''), PStr (py ''2024-01-01'')), (StrKey (py ''title''), PStr (py ''a,b''))],
                PDict [(StrKey (py ''title''), PStr [0x1F600, DQUOTE, LF]), (StrKey (py ''date''), PStr (py ''007''))]])
        (py ''data.csv'') Map.empty = (Inr (), fs') \<and>
      load_data_from_csv (py ''data.csv'') fs' = (Inr (PList (map PDict rows)), fs') \<and>
      length rows = 2 \<and>
      set (rows ! 0) = {(StrKey (py ''date''), PStr (py ''2024-01-01'')), (StrKey (py ''title''), PStr (py ''a,b''))} \<and>
      set (rows ! 1) = {(StrKey (py ''title''), PStr [0x1F600, DQUOTE, LF]), (StrKey (py ''date''), PStr (py ''007''))})"
proof -
  let ?d = "[(StrKey (py ''date''), PStr (py ''2024-01-01'')), (StrKey (py ''title''), PStr (py ''a,b''))]"
  let ?r = "[(StrKey (py ''title''), PStr [0x1F600, DQUOTE, LF]), (StrKey (py ''date''), PStr (py ''007''))]"
  have h1: "(Map.empty :: fs) (py ''data.csv'') = None" by simp
  have h2: "?d \<noteq> []" by simp
  have h3: "plain_keys (map fst ?d)"
    by (simp add: plain_keys_def plain_def field_limit_def encodable_def)
  have p1: "plain_values ?d" and p2: "plain_values ?r"
    by (simp_all add: plain_values_def plain_def field_limit_def encodable_def)
  have h4: "\<forall>r\<in>set (?d # [?r]). distinct (map fst r) \<and> set (map fst r) = set (map fst ?d) \<and> plain_values r"
    using p1 p2 by auto
  obtain fs' rows where
    a: "save_data_to_csv example_str (PList (map PDict (?d # [?r]))) (py ''data.csv'') Map.empty = (Inr (), fs')"
    and b: "load_data_from_csv (py ''data.csv'') fs' = (Inr (PList (map PDict rows)), fs')"
    and c: "length rows = length (?d # [?r])"
    and e: "\<forall>i<length rows. set (rows ! i) = set ((?d # [?r]) ! i) \<and> map fst (rows ! i) = map fst ?d"
    using h1 h2 h3 h4
      append_then_load_fresh[where fs = Map.empty and file_path = "py ''data.csv''" and d = ?d
        and ds = "[?r]" and py_str = example_str]
    by blast
  have "set (rows ! 0) = set ?d" "set (rows ! 1) = set ?r" using c e by auto
  then show ?thesis using h1 h3 p1 p2 a b c by (intro conjI exI[of _ fs'] exI[of _ rows]) simp_all
qed

text \<open>
  The claim as stated fails on the batch of one record with no field: the field set is
  shared and every value is a string, vacuously, but the file then holds two empty
  lines and \<^verbatim>\<open>DictReader\<close> returns no row for one record written. It fails as well
  on a value that is a lone surrogate, \<^verbatim>\<open>[{'a': '\ud800'}]\<close>: the header is written,
  the row raises \<^verbatim>\<open>UnicodeEncodeError\<close>, and the file holds no row.
\<close>

theorem append_then_load_counterexample:
  "fst (save_data_to_csv example_str (PList [PDict []]) (py ''data.csv'') Map.empty) = Inr () \<and>
   snd (save_data_to_csv example_str (PList [PDict []]) (py ''data.csv'') Map.empty) (py ''data.csv'') =
     Some [CR, LF, CR, LF] \<and>
   fst (load_data_from_csv (py ''data.csv'')
          (snd (save_data_to_csv example_str (PList [PDict []]) (py ''data.csv'') Map.empty))) =
     Inr (PList []) \<and>
   save_data_to_csv example_str (PList [PDict [(StrKey (py ''a''), PStr [0xD800])]])
       (py ''data.csv'') Map.empty =
     (Inl UnicodeEncodeError, [py ''data.csv'' \<mapsto> py ''a'' @ [CR, LF]]) \<and>
   fst (load_data_from_csv (py ''data.csv'') [py ''data.csv'' \<mapsto> py ''a'' @ [CR, LF]]) =
     Inr (PList [])"
  by (simp add: eval_defs)

text \<open>
  A carriage return in a value does not come back either: the file is written with
  \<^verbatim>\<open>newline=''\<close> and read without it, so the reader sees a line feed in its place.
\<close>

lemma carriage_return_not_preserved:
  "fst (load_data_from_csv (py ''data.csv'')
          (snd (save_data_to_csv example_str
                  (PList [PDict [(StrKey (py ''a''), PStr (py ''x'' @ [CR] @ py ''y''))]])
                  (py ''data.csv'') Map.empty))) =
     Inr (PList [PDict [(StrKey (py ''a''), PStr (py ''x'' @ [LF] @ py ''y''))]])"
  by (simp add: eval_defs)

text \<open>
  Nor does a value longer than the field size limit: it is written, and the reader
  then raises \<^verbatim>\<open>csv.Error\<close>.
\<close>

lemma field_over_limit_not_loaded:
  "fst (save_data_to_csv example_str
          (PList [PDict [(StrKey (py ''a''), PStr (replicate (Suc field_limit) (120 :: codepoint)))]])
          (py ''data.csv'') Map.empty) = Inr () \<and>
   fst (load_data_from_csv (py ''data.csv'')
          (snd (save_data_to_csv example_str
                  (PList [PDict [(StrKey (py ''a''), PStr (replicate (Suc field_limit) (120 :: codepoint)))]])
                  (py ''data.csv'') Map.empty))) = Inl CsvError"
proof -
  let ?xs = "replicate (Suc field_limit) (120 :: codepoint)"
  let ?d = "[(StrKey (py ''a''), PStr ?xs)]"
  have k: "(Map.empty :: fs) (py ''data.csv'') = None \<longrightarrow> text_keys (map fst ?d)"
    by (simp add: text_keys_def key_text_def encodable_def)
  have "utf8_text ?xs"
    by (simp add: utf8_text_def list_all_iff encodable_def)
  then have v: "\<forall>r\<in>set (?d # []). fits (map fst ?d) r \<and> text_values r"
    by (simp add: fits_def text_values_def)
  have s: "save_data_to_csv example_str (PList (map PDict (?d # []))) (py ''data.csv'') Map.empty =
     (Inr (), [py ''data.csv'' \<mapsto> written [[py ''a'']] @ written [[?xs]]])"
    using k v save_text[where fs = Map.empty and file_path = "py ''data.csv''" and d = ?d
        and ds = "[]" and py_str = example_str]
    by (simp add: header_written row_line_def written_def row_cells_def text_of_def
        key_text_def del: replicate_Suc)
  have w: "written [[py ''a'']] @ written [[?xs]] = written [[py ''a''], [?xs]]"
    by (simp add: written_def)
  have "universal_newlines (written [[py ''a''], [?xs]]) = rows_text [[py ''a''], [?xs]]"
    by (intro un_written) auto
  also have "\<dots> = record_text [py ''a''] @ LF # (?xs @ [LF])"
    by (simp add: rows_text_def record_text_def join_append_def list_ex_iff special_def)
  finally have u: "universal_newlines (written [[py ''a''], [?xs]]) =
      record_text [py ''a''] @ LF # (?xs @ [LF])" .
  have "run parse_reset False (record_text [py ''a''] @ LF # (?xs @ [LF])) =
        (case run parse_reset False (?xs @ [LF]) of
            Inl e \<Rightarrow> Inl e
          | Inr (rows, rf, mf) \<Rightarrow> Inr ([py ''a''] # rows, rf, mf))"
    by (intro run_row) (simp add: field_limit_def)
  then have "run parse_reset False (record_text [py ''a''] @ LF # (?xs @ [LF])) = Inl CsvError"
    by (simp only: run_long_field sum.case)
  then have "file_rows (written [[py ''a''], [?xs]]) = Inl CsvError"
    by (simp only: file_rows_def csv_reader_scan scan_def u sum.case)
  then show ?thesis using s w by (simp add: load_data_from_csv_def del: replicate_Suc)
qed

subsection \<open>C4: the header is written once\<close>

text \<open>
  C4, as amended. For every non-empty Record Batch whose records have strings that
  UTF-8 encodes as values (no lone surrogate) and no key outside the first record's
  field names: on a destination that does not exist, where the field names are such
  strings as well, \<open>save_data_to_csv\<close> returns normally and the file holds the header
  row of the first record's field names followed by one row per record; on a
  destination that exists, it returns normally and the file holds its former text
  followed by one row per record, with no header row written.
\<close>

theorem append_header_only_when_fresh:
  assumes "\<forall>r\<in>set (d # ds). fits (map fst d) r \<and> text_values r"
  shows "(fs file_path = None \<and> text_keys (map fst d) \<longrightarrow>
            save_data_to_csv py_str (PList (map PDict (d # ds))) file_path fs =
              (Inr (), fs(file_path \<mapsto>
                 header_line (map fst d) @ concat (map (row_line (map fst d)) (d # ds))))) \<and>
         (\<forall>content. fs file_path = Some content \<longrightarrow>
            save_data_to_csv py_str (PList (map PDict (d # ds))) file_path fs =
              (Inr (), fs(file_path \<mapsto>
                 content @ concat (map (row_line (map fst d)) (d # ds)))))"
proof (intro conjI allI impI)
  assume "fs file_path = None \<and> text_keys (map fst d)"
  then show "save_data_to_csv py_str (PList (map PDict (d # ds))) file_path fs =
      (Inr (), fs(file_path \<mapsto>
         header_line (map fst d) @ concat (map (row_line (map fst d)) (d # ds))))"
    using assms save_text[where fs = fs and file_path = file_path and d = d and ds = ds
        and py_str = py_str]
    by simp
next
  fix content
  assume "fs file_path = Some content"
  then show "save_data_to_csv py_str (PList (map PDict (d # ds))) file_path fs =
      (Inr (), fs(file_path \<mapsto> content @ concat (map (row_line (map fst d)) (d # ds))))"
    using assms save_text[where fs = fs and file_path = file_path and d = d and ds = ds
        and py_str = py_str]
    by simp
qed

theorem append_header_only_when_fresh_witness:
  "text_keys [StrKey (py ''a''), StrKey (py ''b'')] \<and>
   text_values [(StrKey (py ''a''), PStr (py ''1'')), (StrKey (py ''b''), PStr (py ''2''))] \<and>
   fits [StrKey (py ''a''), StrKey (py ''b'')] [(StrKey (py ''b''), PStr [0xE9])] \<and>
   text_values [(StrKey (py ''b''), PStr [0xE9])] \<and>
   save_data_to_csv example_str
     (PList [PDict [(StrKey (py ''a''), PStr (py ''1'')), (StrKey (py ''b''), PStr (py ''2''))],
             PDict [(StrKey (py ''b''), PStr [0xE9])]])
     (py ''data.csv'') Map.empty =
     (Inr (), [py ''data.csv'' \<mapsto>
                 py ''a,b'' @ [CR, LF] @ py ''1,2'' @ [CR, LF] @ py '','' @ [0xE9, CR, LF]]) \<and>
   save_data_to_csv example_str
     (PList [PDict [(StrKey (py ''a''), PStr (py ''1'')), (StrKey (py ''b''), PStr (py ''2''))],
             PDict [(StrKey (py ''b''), PStr [0xE9])]])
     (py ''data.csv'') [py ''data.csv'' \<mapsto> py ''a,b'' @ [CR, LF]] =
     (Inr (), [py ''data.csv'' \<mapsto>
                 py ''a,b'' @ [CR, LF] @ py ''1,2'' @ [CR, LF] @ py '','' @ [0xE9, CR, LF]])"
proof -
  let ?d = "[(StrKey (py ''a''), PStr (py ''1'')), (StrKey (py ''b''), PStr (py ''2''))]"
  let ?r = "[(StrKey (py ''b''), PStr [0xE9])]"
  have k: "text_keys [StrKey (py ''a''), StrKey (py ''b'')]"
    by (simp add: text_keys_def key_text_def encodable_def)
  have f: "fits [StrKey (py ''a''), StrKey (py ''b'')] ?r" by (simp add: fits_def)
  have t: "text_values ?d" "text_values ?r"
    by (simp_all add: text_values_def encodable_def)
  have h: "\<forall>r\<in>set (?d # [?r]). fits (map fst ?d) r \<and> text_values r"
    using f t by (simp add: fits_def)
  have e: "[py ''data.csv'' \<mapsto> py ''a,b'' @ [CR, LF]] (py ''data.csv'') =
      Some (py ''a,b'' @ [CR, LF])"
    by simp
  show ?thesis
    using k f t e
      append_header_only_when_fresh[OF h, of Map.empty "py ''data.csv''" example_str]
      append_header_only_when_fresh[OF h, of "[py ''data.csv'' \<mapsto> py ''a,b'' @ [CR, LF]]"
        "py ''data.csv''" example_str]
    by (simp add: header_line_def row_line_def record_text_def join_append_def special_def
        row_cells_def text_of_def key_text_def)
qed

text \<open>
  The claim as stated, for every non-empty Record Batch, fails where a later record has
  a key outside the first record's field names: of two records one row is written, and
  the call raises. It fails as well where a value is a lone surrogate,
  \<^verbatim>\<open>[{'a': 'ok'}, {'a': '\ud800'}]\<close>: the header and one row are written, and the
  second row raises \<^verbatim>\<open>UnicodeEncodeError\<close>.
\<close>

theorem append_header_only_when_fresh_counterexample:
  "save_data_to_csv example_str
     (PList [PDict [(StrKey (py ''a''), PStr (py ''1''))], PDict [(StrKey (py ''b''), PStr (py ''2''))]])
     (py ''data.csv'') Map.empty =
     (Inl ValueError, [py ''data.csv'' \<mapsto> py ''a'' @ [CR, LF] @ py ''1'' @ [CR, LF]]) \<and>
   save_data_to_csv example_str
     (PList [PDict [(StrKey (py ''a''), PStr (py ''ok''))], PDict [(StrKey (py ''a''), PStr [0xD800])]])
     (py ''data.csv'') Map.empty =
     (Inl UnicodeEncodeError, [py ''data.csv'' \<mapsto> py ''a'' @ [CR, LF] @ py ''ok'' @ [CR, LF]])"
  by (simp add: eval_defs)

subsection \<open>C5: the stored table only grows\<close>

text \<open>
  C5, as amended. For every destination that exists, whose text ends at a record
  boundary and has the header row \<open>hdr\<close> of at least one field name, and every non-empty
  Record Batch whose first record has exactly the field names \<open>hdr\<close> in the same order,
  every record having distinct keys, that set of field names and plain strings as
  values (strings that UTF-8 encodes, with no carriage return and of at most 131072
  code points): \<open>save_data_to_csv\<close> returns normally and only adds text after the
  existing text, and \<open>load_data_from_csv\<close> then returns the rows it returned before,
  unchanged and in order, followed by one dictionary per record of the batch, with
  exactly the items of that record. The new text again ends at a record boundary under
  the same header row, so the same holds for the append after it. (That an existing
  text is kept as a prefix by every call, whatever the data and whether the call
  returns or raises, is lemma \<open>save_only_appends\<close>; that a table written on a fresh
  destination meets the conditions is lemma \<open>fresh_table_ends_record\<close>.)
\<close>

theorem append_to_existing_table:
  assumes "fs file_path = Some content" and "ends_record content"
    and "file_rows content = Inr (hdr # body)" and "hdr \<noteq> []"
    and "map fst d = map StrKey hdr"
    and "\<forall>r\<in>set (d # ds). distinct (map fst r) \<and> set (map fst r) = set (map fst d) \<and> plain_values r"
  shows "\<exists>new old rows.
           save_data_to_csv py_str (PList (map PDict (d # ds))) file_path fs =
             (Inr (), fs(file_path \<mapsto> content @ new)) \<and>
           load_data_from_csv file_path fs = (Inr (PList old), fs) \<and>
           load_data_from_csv file_path (fs(file_path \<mapsto> content @ new)) =
             (Inr (PList (old @ map PDict rows)), fs(file_path \<mapsto> content @ new)) \<and>
           length rows = length (d # ds) \<and>
           (\<forall>i<length rows. set (rows ! i) = set ((d # ds) ! i) \<and> map fst (rows ! i) = map fst d) \<and>
           ends_record (content @ new) \<and>
           (\<exists>body'. file_rows (content @ new) = Inr (hdr # body'))"
proof -
  obtain new where 1: "save_data_to_csv py_str (PList (map PDict (d # ds))) file_path fs =
             (Inr (), fs(file_path \<mapsto> content @ new))"
    and 2: "load_data_from_csv file_path (fs(file_path \<mapsto> content @ new)) =
             (Inr (PList (dict_reader (hdr # body) @
                          map (\<lambda>r. PDict (in_order (map fst d) r)) (d # ds))),
              fs(file_path \<mapsto> content @ new))"
    and 6: "ends_record (content @ new)"
    and 7: "\<exists>body'. file_rows (content @ new) = Inr (hdr # body')"
    using assms save_then_load_existing[where fs = fs and file_path = file_path and content = content
        and hdr = hdr and body = body and d = d and ds = ds and py_str = py_str]
    by blast
  let ?rows = "map (in_order (map fst d)) (d # ds)"
  have 3: "map (\<lambda>r. PDict (in_order (map fst d) r)) (d # ds) = map PDict ?rows"
    by simp
  have 4: "length ?rows = length (d # ds) \<and>
        (\<forall>i<length ?rows. set (?rows ! i) = set ((d # ds) ! i) \<and> map fst (?rows ! i) = map fst d)"
    using assms(6) by (intro rows_with_same_items) simp
  have 5: "load_data_from_csv file_path fs = (Inr (PList (dict_reader (hdr # body))), fs)"
    using assms(1,3) by (simp add: load_data_from_csv_def)
  show ?thesis using 1 2 4 5 6 7 unfolding 3 by blast
qed

theorem append_to_existing_table_witness:
  "[py ''data.csv'' \<mapsto> py ''a,b'' @ [CR, LF] @ py ''1,2'' @ [CR, LF]] (py ''data.csv'') =
     Some (py ''a,b'' @ [CR, LF] @ py ''1,2'' @ [CR, LF]) \<and>
   ends_record (py ''a,b'' @ [CR, LF] @ py ''1,2'' @ [CR, LF]) \<and>
   file_rows (py ''a,b'' @ [CR, LF] @ py ''1,2'' @ [CR, LF]) =
     Inr [[py ''a'', py ''b''], [py ''1'', py ''2'']] \<and>
   plain_values [(StrKey (py ''a''), PStr (py ''3'')), (StrKey (py ''b''), PStr (py ''4''))] \<and>
   (\<exists>new old rows.
      save_data_to_csv example_str
        (PList [PDict [(StrKey (py ''a''), PStr (py ''3'')), (StrKey (py ''b''), PStr (py ''4''))]])
        (py ''data.csv'') [py ''data.csv'' \<mapsto> py ''a,b'' @ [CR, LF] @ py ''1,2'' @ [CR, LF]] =
        (Inr (), [py ''data.csv'' \<mapsto> (py ''a,b'' @ [CR, LF] @ py ''1,2'' @ [CR, LF]) @ new]) \<and>
      load_data_from_csv (py ''data.csv'')
        [py ''data.csv'' \<mapsto> py ''a,b'' @ [CR, LF] @ py ''1,2'' @ [CR, LF]] =
        (Inr (PList old), [py ''data.csv'' \<mapsto> py ''a,b'' @ [CR, LF] @ py ''1,2'' @ [CR, LF]]) \<and>
      load_data_from_csv (py ''data.csv'')
        [py ''data.csv'' \<mapsto> (py ''a,b'' @ [CR, LF] @ py ''1,2'' @ [CR, LF]) @ new] =
        (Inr (PList (old @ map PDict rows)),
         [py ''data.csv'' \<mapsto> (py ''a,b'' @ [CR, LF] @ py ''1,2'' @ [CR, LF]) @ new]) \<and>
      length rows = 1 \<and>
      set (rows ! 0) = {(StrKey (py ''a''), PStr (py ''3'')), (StrKey (py ''b''), PStr (py ''4''))})"
proof -
  let ?text = "py ''a,b'' @ [CR, LF] @ py ''1,2'' @ [CR, LF]"
  let ?fs = "[py ''data.csv'' \<mapsto> ?text]"
  let ?d = "[(StrKey (py ''a''), PStr (py ''3'')), (StrKey (py ''b''), PStr (py ''4''))]"
  have h1: "?fs (py ''data.csv'') = Some ?text" by simp
  have h2: "ends_record ?text"
    by (simp add: run_eval ppc_simps start_field_def is_eol_def after_eol_def
        parse_add_char_def parse_save_field_def parse_reset_def field_limit_def)
  have h3: "file_rows ?text = Inr ([py ''a'', py ''b''] # [[py ''1'', py ''2'']])"
    by (simp add: eval_defs)
  have h4: "[py ''a'', py ''b''] \<noteq> []" by simp
  have h5: "map fst ?d = map StrKey [py ''a'', py ''b'']" by simp
  have p: "plain_values ?d"
    by (simp add: plain_values_def plain_def field_limit_def encodable_def)
  have h6: "\<forall>r\<in>set (?d # []). distinct (map fst r) \<and> set (map fst r) = set (map fst ?d) \<and> plain_values r"
    using p by simp
  obtain new old rows where
    a: "save_data_to_csv example_str (PList (map PDict (?d # []))) (py ''data.csv'') ?fs =
          (Inr (), ?fs(py ''data.csv'' \<mapsto> ?text @ new))"
    and b: "load_data_from_csv (py ''data.csv'') ?fs = (Inr (PList old), ?fs)"
    and c: "load_data_from_csv (py ''data.csv'') (?fs(py ''data.csv'' \<mapsto> ?text @ new)) =
          (Inr (PList (old @ map PDict rows)), ?fs(py ''data.csv'' \<mapsto> ?text @ new))"
    and l: "length rows = length (?d # [])"
    and e: "\<forall>i<length rows. set (rows ! i) = set ((?d # []) ! i) \<and> map fst (rows ! i) = map fst ?d"
    using h1 h2 h3 h4 h5 h6
      append_to_existing_table[where fs = ?fs and file_path = "py ''data.csv''" and content = ?text
        and hdr = "[py ''a'', py ''b'']" and body = "[[py ''1'', py ''2'']]" and d = ?d and ds = "[]"
        and py_str = example_str]
    by blast
  have "set (rows ! 0) = set ?d" using l e by auto
  then show ?thesis using h1 h2 h3 p a b c l
    by (intro conjI exI[of _ new] exI[of _ old] exI[of _ rows]) simp_all
qed

text \<open>
  The claim as stated fails in three ways. A batch with the field set of the header in
  another order is written in its own order, under a header that is not rewritten: the
  record with \<open>b = 3\<close>, \<open>a = 4\<close> is read back as \<open>a = 3\<close>, \<open>b = 4\<close>. An existing
  text that does not end with a line terminator has its last row changed: the row
  \<open>a = 1\<close> becomes \<open>a = 12\<close>. And a record whose value is a lone surrogate raises
  \<^verbatim>\<open>UnicodeEncodeError\<close> and adds no row.
\<close>

theorem append_to_existing_table_counterexample:
  "fst (load_data_from_csv (py ''data.csv'')
          (snd (save_data_to_csv example_str
                  (PList [PDict [(StrKey (py ''b''), PStr (py ''3'')), (StrKey (py ''a''), PStr (py ''4''))]])
                  (py ''data.csv'') [py ''data.csv'' \<mapsto> py ''a,b'' @ [CR, LF] @ py ''1,2'' @ [CR, LF]]))) =
     Inr (PList [PDict [(StrKey (py ''a''), PStr (py ''1'')), (StrKey (py ''b''), PStr (py ''2''))],
                 PDict [(StrKey (py ''a''), PStr (py ''3'')), (StrKey (py ''b''), PStr (py ''4''))]]) \<and>
   fst (load_data_from_csv (py ''data.csv'') [py ''data.csv'' \<mapsto> py ''a'' @ [CR, LF] @ py ''1'']) =
     Inr (PList [PDict [(StrKey (py ''a''), PStr (py ''1''))]]) \<and>
   fst (load_data_from_csv (py ''data.csv'')
          (snd (save_data_to_csv example_str (PList [PDict [(StrKey (py ''a''), PStr (py ''2''))]])
                  (py ''data.csv'') [py ''data.csv'' \<mapsto> py ''a'' @ [CR, LF] @ py ''1'']))) =
     Inr (PList [PDict [(StrKey (py ''a''), PStr (py ''12''))]]) \<and>
   save_data_to_csv example_str (PList [PDict [(StrKey (py ''a''), PStr [0xD800])]])
       (py ''data.csv'') [py ''data.csv'' \<mapsto> py ''a'' @ [CR, LF]] =
     (Inl UnicodeEncodeError, [py ''data.csv'' \<mapsto> py ''a'' @ [CR, LF]])"
  by (simp add: eval_defs)

subsection \<open>C9: the field names come from the first record\<close>




subsection \<open>C2: the decision of the Query Pipeline\<close>

text \<open>
  C2. For every response of the generator to the decision prompt: if the response has
  \<^verbatim>\<open>NEED_DATA_UPDATE\<close> as a substring, \<open>query_pipeline\<close> calls \<open>load_data_from_csv\<close> on
  the storage file and, unless that raises, the summarization prompt is the text below
  about stored activities, with the dump of the loaded table in it; for every other
  response (\<^verbatim>\<open>NO_UPDATE_NEEDED\<close>, or any text without the substring) the
  summarization prompt is the text below about activities in memory, with the dump of
  the value held in memory in it, the outcome is the same whatever the file system
  holds, and the file system is left as it is. In both branches the generator is called
  on that prompt, and its answer is printed after the line \<^verbatim>\<open>Schedule for tomorrow:\<close>.
  In \<open>main\<close> the value held in memory is the \<^verbatim>\<open>activities_data\<close> of this run's
  extraction.
\<close>

theorem query_decision_by_substring:
  "(if (\<exists>a b. query_llm react_prompt = a @ py ''NEED_DATA_UPDATE'' @ b)
    then (case load_data_from_csv STORAGE_FILE fs of
            (Inl e, fs') \<Rightarrow>
              query_pipeline query_llm json_dumps current_memory fs = (Inl e, fs')
          | (Inr table, fs') \<Rightarrow>
              (\<exists>out. query_pipeline query_llm json_dumps current_memory fs = (Inr out, fs') \<and>
                 summary_prompt out =
                   [LF] @ py ''        You have the following stored activities:'' @ [LF] @
                   py ''        '' @ json_dumps table @ [LF, LF] @
                   py ''        The user wants their schedule for tomorrow. '' @ [LF] @
                   py ''        Summarize the activities scheduled for tomorrow in a clear, concise manner.'' @
                   [LF] @ py ''        If no activities are scheduled, say so.'' @ [LF] @
                   py ''        '' \<and>
                 printed out = [py ''Schedule for tomorrow:'', query_llm (summary_prompt out)]))
    else (\<exists>out. (\<forall>fs2. query_pipeline query_llm json_dumps current_memory fs2 = (Inr out, fs2)) \<and>
            summary_prompt out =
              [LF] @ py ''        You have the following activities in memory:'' @ [LF] @
              py ''        '' @ json_dumps current_memory @ [LF, LF] @
              py ''        The user wants their schedule for tomorrow. '' @ [LF] @
              py ''        Summarize the activities scheduled for tomorrow in a clear, concise manner.'' @
              [LF] @ py ''        If no activities are scheduled, say so.'' @ [LF] @
              py ''        '' \<and>
            printed out = [py ''Schedule for tomorrow:'', query_llm (summary_prompt out)])) \<and>
   (\<forall>batch fs0 py_str json_loads.
      extraction_pipeline query_llm json_loads = Inr batch \<and>
      save_data_to_csv py_str batch STORAGE_FILE fs0 = (Inr (), fs) \<longrightarrow>
      main query_llm json_loads json_dumps py_str fs0 = query_pipeline query_llm json_dumps batch fs)"
proof (intro conjI allI impI)
  show "if \<exists>a b. query_llm react_prompt = a @ py ''NEED_DATA_UPDATE'' @ b
    then (case load_data_from_csv STORAGE_FILE fs of
            (Inl e, fs') \<Rightarrow>
              query_pipeline query_llm json_dumps current_memory fs = (Inl e, fs')
          | (Inr table, fs') \<Rightarrow>
              (\<exists>out. query_pipeline query_llm json_dumps current_memory fs = (Inr out, fs') \<and>
                 summary_prompt out =
                   [LF] @ py ''        You have the following stored activities:'' @ [LF] @
                   py ''        '' @ json_dumps table @ [LF, LF] @
                   py ''        The user wants their schedule for tomorrow. '' @ [LF] @
                   py ''        Summarize the activities scheduled for tomorrow in a clear, concise manner.'' @
                   [LF] @ py ''        If no activities are scheduled, say so.'' @ [LF] @
                   py ''        '' \<and>
                 printed out = [py ''Schedule for tomorrow:'', query_llm (summary_prompt out)]))
    else (\<exists>out. (\<forall>fs2. query_pipeline query_llm json_dumps current_memory fs2 = (Inr out, fs2)) \<and>
            summary_prompt out =
              [LF] @ py ''        You have the following activities in memory:'' @ [LF] @
              py ''        '' @ json_dumps current_memory @ [LF, LF] @
              py ''        The user wants their schedule for tomorrow. '' @ [LF] @
              py ''        Summarize the activities scheduled for tomorrow in a clear, concise manner.'' @
              [LF] @ py ''        If no activities are scheduled, say so.'' @ [LF] @
              py ''        '' \<and>
            printed out = [py ''Schedule for tomorrow:'', query_llm (summary_prompt out)])"
  proof (cases "str_contains (query_llm react_prompt) (py ''NEED_DATA_UPDATE'')")
    case True
    then have "\<exists>a b. query_llm react_prompt = a @ py ''NEED_DATA_UPDATE'' @ b"
      using str_contains_iff[of "query_llm react_prompt" "py ''NEED_DATA_UPDATE''"] by blast
    then show ?thesis
      using True query_pipeline_update[where query_llm = query_llm and json_dumps = json_dumps
          and current_memory = current_memory and fs = fs]
      by (auto simp: augment_prompt_stored_def split: prod.splits sum.splits)
  next
    case False
    then have "\<not> (\<exists>a b. query_llm react_prompt = a @ py ''NEED_DATA_UPDATE'' @ b)"
      using str_contains_iff[of "query_llm react_prompt" "py ''NEED_DATA_UPDATE''"] by blast
    then show ?thesis
      using False query_pipeline_memory[where query_llm = query_llm and json_dumps = json_dumps
          and current_memory = current_memory]
      by (auto simp: augment_prompt_memory_def)
  qed
next
  fix batch fs0 py_str json_loads
  assume "extraction_pipeline query_llm json_loads = Inr batch \<and>
      save_data_to_csv py_str batch STORAGE_FILE fs0 = (Inr (), fs)"
  then show "main query_llm json_loads json_dumps py_str fs0 =
      query_pipeline query_llm json_dumps batch fs"
    using main_after_save by blast
qed

text \<open>
  The two branches on one file system: the storage file \<^verbatim>\<open>data.csv\<close> holds the table
  of one record, \<^verbatim>\<open>a = 1\<close>, and the batch in memory is empty. With
  \<^verbatim>\<open>NEED_DATA_UPDATE\<close> in the response the prompt carries the stored record; with
  \<^verbatim>\<open>NO_UPDATE_NEEDED\<close> it carries the empty batch.
\<close>

theorem query_decision_by_substring_witness:
  "str_contains (example_llm (py ''Nothing.'') (py ''Yes: NEED_DATA_UPDATE now'') react_prompt)
     (py ''NEED_DATA_UPDATE'') \<and>
   query_pipeline (example_llm (py ''Nothing.'') (py ''Yes: NEED_DATA_UPDATE now'')) example_dumps
       (PList []) [py ''data.csv'' \<mapsto> py ''a'' @ [CR, LF] @ py ''1'' @ [CR, LF]] =
     (Inr \<lparr>summary_prompt =
              [LF] @ py ''        You have the following stored activities:'' @ [LF] @
              py ''        ['' @ [LF] @ py ''  {'' @ [LF] @ py ''    '' @ [DQUOTE] @ py ''a'' @
              [DQUOTE] @ py '': '' @ [DQUOTE] @ py ''1'' @ [DQUOTE, LF] @ py ''  }'' @ [LF] @
              py '']'' @ [LF, LF] @
              py ''        The user wants their schedule for tomorrow. '' @ [LF] @
              py ''        Summarize the activities scheduled for tomorrow in a clear, concise manner.'' @
              [LF] @ py ''        If no activities are scheduled, say so.'' @ [LF] @
              py ''        '',
            printed = [py ''Schedule for tomorrow:'', py ''Nothing.'']\<rparr>,
      [py ''data.csv'' \<mapsto> py ''a'' @ [CR, LF] @ py ''1'' @ [CR, LF]]) \<and>
   \<not> str_contains (example_llm (py ''Nothing.'') (py ''NO_UPDATE_NEEDED'') react_prompt)
     (py ''NEED_DATA_UPDATE'') \<and>
   query_pipeline (example_llm (py ''Nothing.'') (py ''NO_UPDATE_NEEDED'')) example_dumps
       (PList []) [py ''data.csv'' \<mapsto> py ''a'' @ [CR, LF] @ py ''1'' @ [CR, LF]] =
     (Inr \<lparr>summary_prompt =
              [LF] @ py ''        You have the following activities in memory:'' @ [LF] @
              py ''        []'' @ [LF, LF] @
              py ''        The user wants their schedule for tomorrow. '' @ [LF] @
              py ''        Summarize the activities scheduled for tomorrow in a clear, concise manner.'' @
              [LF] @ py ''        If no activities are scheduled, say so.'' @ [LF] @
              py ''        '',
            printed = [py ''Schedule for tomorrow:'', py ''Nothing.'']\<rparr>,
      [py ''data.csv'' \<mapsto> py ''a'' @ [CR, LF] @ py ''1'' @ [CR, LF]])"
proof -
  let ?yes = "example_llm (py ''Nothing.'') (py ''Yes: NEED_DATA_UPDATE now'')"
  let ?no = "example_llm (py ''Nothing.'') (py ''NO_UPDATE_NEEDED'')"
  let ?fs = "[py ''data.csv'' \<mapsto> py ''a'' @ [CR, LF] @ py ''1'' @ [CR, LF]]"
  let ?stored = "[LF] @ py ''        You have the following stored activities:'' @ [LF] @
              py ''        ['' @ [LF] @ py ''  {'' @ [LF] @ py ''    '' @ [DQUOTE] @ py ''a'' @
              [DQUOTE] @ py '': '' @ [DQUOTE] @ py ''1'' @ [DQUOTE, LF] @ py ''  }'' @ [LF] @
              py '']'' @ [LF, LF] @
              py ''        The user wants their schedule for tomorrow. '' @ [LF] @
              py ''        Summarize the activities scheduled for tomorrow in a clear, concise manner.'' @
              [LF] @ py ''        If no activities are scheduled, say so.'' @ [LF] @
              py ''        ''"
  let ?memory = "[LF] @ py ''        You have the following activities in memory:'' @ [LF] @
              py ''        []'' @ [LF, LF] @
              py ''        The user wants their schedule for tomorrow. '' @ [LF] @
              py ''        Summarize the activities scheduled for tomorrow in a clear, concise manner.'' @
              [LF] @ py ''        If no activities are scheduled, say so.'' @ [LF] @
              py ''        ''"
  have y: "str_contains (?yes react_prompt) (py ''NEED_DATA_UPDATE'')"
    by (simp add: example_llm_def)
  have n: "\<not> str_contains (?no react_prompt) (py ''NEED_DATA_UPDATE'')"
    by (simp add: example_llm_def)
  have ey: "\<exists>a b. ?yes react_prompt = a @ py ''NEED_DATA_UPDATE'' @ b"
    using y str_contains_iff[of "?yes react_prompt" "py ''NEED_DATA_UPDATE''"] by blast
  have en: "\<not> (\<exists>a b. ?no react_prompt = a @ py ''NEED_DATA_UPDATE'' @ b)"
    using n str_contains_iff[of "?no react_prompt" "py ''NEED_DATA_UPDATE''"] by blast
  have l: "load_data_from_csv STORAGE_FILE ?fs =
      (Inr (PList [PDict [(StrKey (py ''a''), PStr (py ''1''))]]), ?fs)"
    by (simp add: eval_defs STORAGE_FILE_def)
  have ry: "?yes ?stored = py ''Nothing.''" and rn: "?no ?memory = py ''Nothing.''"
    by (simp_all add: prompt_defs)
  obtain out where
    a1: "query_pipeline ?yes example_dumps (PList []) ?fs = (Inr out, ?fs)"
    and a2: "summary_prompt out = ?stored"
    and a3: "printed out = [py ''Schedule for tomorrow:'', ?yes (summary_prompt out)]"
    using ey l query_decision_by_substring[where query_llm = ?yes and fs = ?fs
        and json_dumps = example_dumps and current_memory = "PList []"]
    by (auto simp: example_dumps_def)
  have a: "query_pipeline ?yes example_dumps (PList []) ?fs =
      (Inr \<lparr>summary_prompt = ?stored, printed = [py ''Schedule for tomorrow:'', py ''Nothing.'']\<rparr>, ?fs)"
    using a1 a2 a3 ry by (cases out) simp
  obtain out' where
    b1: "query_pipeline ?no example_dumps (PList []) ?fs = (Inr out', ?fs)"
    and b2: "summary_prompt out' = ?memory"
    and b3: "printed out' = [py ''Schedule for tomorrow:'', ?no (summary_prompt out')]"
    using en query_decision_by_substring[where query_llm = ?no and fs = ?fs
        and json_dumps = example_dumps and current_memory = "PList []"]
    by (auto simp: example_dumps_def)
  have b: "query_pipeline ?no example_dumps (PList []) ?fs =
      (Inr \<lparr>summary_prompt = ?memory, printed = [py ''Schedule for tomorrow:'', py ''Nothing.'']\<rparr>, ?fs)"
    using b1 b2 b3 rn by (cases out') simp
  show ?thesis using y n a b by (simp add: STORAGE_FILE_def)
qed

subsection \<open>C3: output that is not JSON\<close>

text \<open>
  The handler of lines 95 and 96 catches \<^verbatim>\<open>json.JSONDecodeError\<close>: for every output
  of the second generator call on which \<^verbatim>\<open>json.loads\<close> raises that exception, the
  extraction yields the empty list and raises nothing; \<open>main\<close> goes on to the query
  pipeline with the empty batch in memory and the file system untouched.
\<close>

lemma invalid_json_gives_empty_batch:
  assumes "json_loads (query_llm (json_prompt (query_llm extract_prompt))) = Inl JSONDecodeError"
  shows "extraction_pipeline query_llm json_loads = Inr (PList []) \<and>
         main query_llm json_loads json_dumps py_str fs =
           query_pipeline query_llm json_dumps (PList []) fs"
proof -
  have e: "extraction_pipeline query_llm json_loads = Inr (PList [])"
    using assms by (simp add: extraction_pipeline_def parse_activities_def)
  have "save_data_to_csv py_str (PList []) STORAGE_FILE fs = (Inr (), fs)"
    by (simp add: save_data_to_csv_def)
  then show ?thesis using e main_after_save by blast
qed

lemma not_json_gives_empty_batch:
  "extraction_pipeline (example_llm (py ''not json'') (py ''NO_UPDATE_NEEDED'')) example_loads =
     Inr (PList [])"
proof -
  let ?llm = "example_llm (py ''not json'') (py ''NO_UPDATE_NEEDED'')"
  have 1: "?llm extract_prompt = py ''not json''" by (simp add: prompt_defs)
  have 2: "?llm (json_prompt (py ''not json'')) = py ''not json''" by (simp add: prompt_defs)
  have n: "py ''not json'' \<noteq> open_brackets"
    by (simp add: open_brackets_long)
  have "example_loads (?llm (json_prompt (?llm extract_prompt))) = Inl JSONDecodeError"
    unfolding 1 2 using n by (simp add: example_loads_def)
  then show ?thesis
    using invalid_json_gives_empty_batch[where query_llm = ?llm and json_loads = example_loads]
    by simp
qed

text \<open>
  C3. The claim is about every output that is not parseable as JSON. \<^verbatim>\<open>json.loads\<close>
  does not raise \<^verbatim>\<open>JSONDecodeError\<close> on all of them: on \<^verbatim>\<open>'[' * 100000\<close> it raises
  \<^verbatim>\<open>RecursionError\<close>, and on \<^verbatim>\<open>'[' + '1' * 4301\<close> it raises \<^verbatim>\<open>ValueError\<close>. For
  every output on which \<^verbatim>\<open>json.loads\<close> raises an exception other than
  \<^verbatim>\<open>JSONDecodeError\<close>, the extraction raises that exception, and \<open>main\<close> ends with
  it, the file system untouched: there is no empty batch.
\<close>

theorem other_json_error_is_raised:
  assumes "json_loads (query_llm (json_prompt (query_llm extract_prompt))) = Inl e"
    and "e \<noteq> JSONDecodeError"
  shows "extraction_pipeline query_llm json_loads = Inl e \<and>
         main query_llm json_loads json_dumps py_str fs = (Inl e, fs)"
  using assms by (simp add: main_def extraction_pipeline_def parse_activities_def)

theorem other_json_error_is_raised_witness:
  "example_loads (example_llm open_brackets (py ''NO_UPDATE_NEEDED'')
      (json_prompt (example_llm open_brackets (py ''NO_UPDATE_NEEDED'') extract_prompt))) =
     Inl RecursionError \<and>
   RecursionError \<noteq> JSONDecodeError \<and>
   extraction_pipeline (example_llm open_brackets (py ''NO_UPDATE_NEEDED'')) example_loads =
     Inl RecursionError \<and>
   main (example_llm open_brackets (py ''NO_UPDATE_NEEDED'')) example_loads example_dumps
       example_str Map.empty =
     (Inl RecursionError, Map.empty)"
proof -
  let ?llm = "example_llm open_brackets (py ''NO_UPDATE_NEEDED'')"
  have 1: "?llm extract_prompt = open_brackets" by (simp add: prompt_defs)
  have 2: "?llm (json_prompt open_brackets) = open_brackets" by (simp add: prompt_defs)
  have n: "open_brackets \<noteq> py ''[]''" "open_brackets \<noteq> py ''42''"
    by (simp_all add: open_brackets_long)
  have h: "example_loads (?llm (json_prompt (?llm extract_prompt))) = Inl RecursionError"
    unfolding 1 2 using n by (simp add: example_loads_def)
  show ?thesis
    using h other_json_error_is_raised[where query_llm = ?llm and json_loads = example_loads
        and e = RecursionError and json_dumps = example_dumps and py_str = example_str
        and fs = Map.empty]
    by simp
qed

subsection \<open>C10: valid JSON that is not a list of records\<close>

text \<open>
  C10. The fallback covers the decode failure only: for every output of the second
  generator call that \<^verbatim>\<open>json.loads\<close> parses to a value \<open>v\<close>, the extraction yields \<open>v\<close>
  itself, not the empty batch, and \<open>main\<close> passes it to \<open>save_data_to_csv\<close>. If \<open>v\<close> is
  truthy and not a list (a non-zero number, \<^verbatim>\<open>true\<close>, a non-empty string or object),
  \<open>save_data_to_csv\<close> raises before it opens the file, and \<open>main\<close> ends with that
  exception.
\<close>

theorem valid_json_not_a_list_is_fatal:
  assumes "json_loads (query_llm (json_prompt (query_llm extract_prompt))) = Inr v"
  shows "extraction_pipeline query_llm json_loads = Inr v \<and>
         (truthy v \<and> \<not> is_list v \<longrightarrow>
            (\<exists>e. save_data_to_csv py_str v STORAGE_FILE fs = (Inl e, fs) \<and>
                 main query_llm json_loads json_dumps py_str fs = (Inl e, fs)))"
proof -
  have e: "extraction_pipeline query_llm json_loads = Inr v"
    using assms by (simp add: extraction_pipeline_def parse_activities_def)
  have "\<exists>e. save_data_to_csv py_str v STORAGE_FILE fs = (Inl e, fs) \<and>
            main query_llm json_loads json_dumps py_str fs = (Inl e, fs)"
    if tv: "truthy v" and nl: "\<not> is_list v"
  proof -
    obtain x where "save_data_to_csv py_str v STORAGE_FILE fs = (Inl x, fs)"
      using save_not_a_list[OF tv nl] by blast
    then show ?thesis using e by (simp add: main_def)
  qed
  then show ?thesis using e by blast
qed

theorem valid_json_not_a_list_is_fatal_witness:
  "example_loads (example_llm (py ''42'') (py ''NEED_DATA_UPDATE'')
      (json_prompt (example_llm (py ''42'') (py ''NEED_DATA_UPDATE'') extract_prompt))) = Inr (PInt 42) \<and>
   truthy (PInt 42) \<and> \<not> is_list (PInt 42) \<and>
   extraction_pipeline (example_llm (py ''42'') (py ''NEED_DATA_UPDATE'')) example_loads = Inr (PInt 42) \<and>
   main (example_llm (py ''42'') (py ''NEED_DATA_UPDATE'')) example_loads example_dumps example_str Map.empty =
     (Inl TypeError, Map.empty)"
proof -
  let ?llm = "example_llm (py ''42'') (py ''NEED_DATA_UPDATE'')"
  have 1: "?llm extract_prompt = py ''42''" by (simp add: prompt_defs)
  have 2: "?llm (json_prompt (py ''42'')) = py ''42''" by (simp add: prompt_defs)
  have h: "example_loads (?llm (json_prompt (?llm extract_prompt))) = Inr (PInt 42)"
    unfolding 1 2 by (simp add: example_loads_def open_brackets_long)
  have t: "truthy (PInt 42)" "\<not> is_list (PInt 42)" by (simp_all add: is_list_def)
  have s: "save_data_to_csv example_str (PInt 42) STORAGE_FILE Map.empty = (Inl TypeError, Map.empty)"
    by (simp add: save_data_to_csv_def)
  show ?thesis
    using h t s valid_json_not_a_list_is_fatal[where query_llm = ?llm and json_loads = example_loads
        and v = "PInt 42" and json_dumps = example_dumps and py_str = example_str and fs = Map.empty]
    by auto
qed


end
